theory Spec2Isabelle
  imports Complex_Main "HOL-Library.Multiset"
begin

section \<open>Input data: pull requests and their reviewer assignments\<close>

text \<open>
  The review service's objects (\<open>GitPullRequest\<close>, \<open>IdentityRefWithVote\<close>) declare every
  field optional, and the tool reads them through \<open>||\<close>, \<open>?.\<close> and \<open>!\<close>; an absent field
  is \<open>None\<close>. Counts are naturals (they start at 0 and are only incremented), votes are
  integers. A string is the list of its UTF-16 code units, and a character of the model
  is one code unit below 256 (the Latin-1 range): identities, display names and titles
  are taken to lie in that range, where the length of the list is JavaScript's
  \<open>length\<close>. The display name and the title are never inspected beyond their length.
\<close>

record IdentityRefWithVote =
  rv_displayName :: "string option"
  uniqueName :: "string option"
  isRequired :: "bool option"
  vote :: "int option"

record GitPullRequest =
  pullRequestId :: "int option"
  pr_title :: "string option"
  isDraft :: "bool option"
  pr_reviewers :: "IdentityRefWithVote list option"

record PrRef =
  ref_id :: int
  ref_title :: string
  ref_isRequired :: bool
  ref_vote :: string

record ReviewerStat =
  displayName :: string
  email :: string
  requiredCount :: nat
  optionalCount :: nat
  totalCount :: nat
  approvedCount :: nat
  pendingCount :: nat
  waitingForAuthorCount :: nat
  rejectedCount :: nat
  prs :: "PrRef list"

subsection \<open>JavaScript's truthiness and defaults\<close>

text \<open>\<open>!x\<close> on an optional boolean: absent and \<open>false\<close> are both falsy.\<close>

definition truthy :: "bool option \<Rightarrow> bool" where
  "truthy b = (case b of None \<Rightarrow> False | Some v \<Rightarrow> v)"

text \<open>\<open>s || d\<close> on an optional string: absent and the empty string give the default.\<close>

definition orString :: "string option \<Rightarrow> string \<Rightarrow> string" where
  "orString s d = (case s of None \<Rightarrow> d | Some v \<Rightarrow> if v = [] then d else v)"

text \<open>\<open>n || 0\<close> on an optional integer: absent and 0 give 0.\<close>

definition orZero :: "int option \<Rightarrow> int" where
  "orZero n = (case n of None \<Rightarrow> 0 | Some v \<Rightarrow> if v = 0 then 0 else v)"

text \<open>
  \<open>toLowerCase\<close> on the code units of the model: the capital letters are A to Z
  (65 to 90) and the accented capitals from 192 to 222 other than the multiplication
  sign 215; each moves to the code unit 32 above, its small letter. Every other code
  unit, blanks included, stays as it is.
\<close>

definition isUpperChar :: "char \<Rightarrow> bool" where
  "isUpperChar c =
     (let n = (of_char c :: nat)
      in (65 \<le> n \<and> n \<le> 90) \<or> (192 \<le> n \<and> n \<le> 222 \<and> n \<noteq> 215))"

definition lowerChar :: "char \<Rightarrow> char" where
  "lowerChar c = (if isUpperChar c then char_of (of_char c + 32 :: nat) else c)"

definition toLowerCase :: "string \<Rightarrow> string" where
  "toLowerCase s = map lowerChar s"

text \<open>The table \<open>VoteLabels\<close> of types.ts, read as \<open>VoteLabels[vote]\<close>.\<close>

definition VoteLabels :: "int \<Rightarrow> string option" where
  "VoteLabels v =
     (if v = 10 then Some ''Approved''
      else if v = 5 then Some ''Approved with suggestions''
      else if v = 0 then Some ''No vote''
      else if v = -5 then Some ''Waiting for author''
      else if v = -10 then Some ''Rejected''
      else None)"

section \<open>The reviewer aggregator (reviewerStats, the loop over the pull requests)\<close>

text \<open>
  \<open>statsMap\<close> is a JavaScript \<open>Map\<close>: it keeps its keys in insertion order, and
  \<open>Array.from(statsMap.values())\<close> reads them in that order. It is an association list;
  \<open>set\<close> on a key already present replaces the value in place, on a new key it appends.
\<close>

type_synonym statsMap = "(string \<times> ReviewerStat) list"

definition Map_get :: "statsMap \<Rightarrow> string \<Rightarrow> ReviewerStat option" where
  "Map_get m k = map_of m k"

definition Map_has :: "statsMap \<Rightarrow> string \<Rightarrow> bool" where
  "Map_has m k = (Map_get m k \<noteq> None)"

fun Map_set :: "statsMap \<Rightarrow> string \<Rightarrow> ReviewerStat \<Rightarrow> statsMap" where
  "Map_set [] k v = [(k, v)]"
| "Map_set (p # ps) k v = (if fst p = k then (k, v) # ps else p # Map_set ps k v)"

definition Map_values :: "statsMap \<Rightarrow> ReviewerStat list" where
  "Map_values m = map snd m"

text \<open>The object stored for an email seen for the first time.\<close>

definition newStat :: "IdentityRefWithVote \<Rightarrow> ReviewerStat" where
  "newStat reviewer =
     \<lparr> displayName = orString (rv_displayName reviewer) ''Unknown'',
       email = orString (uniqueName reviewer) [],
       requiredCount = 0, optionalCount = 0, totalCount = 0,
       approvedCount = 0, pendingCount = 0, waitingForAuthorCount = 0,
       rejectedCount = 0, prs = [] \<rparr>"

text \<open>
  The vote branch of the loop body: the four-way \<open>if\<close> chain on \<open>vote\<close>, in the
  source's order, each branch incrementing one counter of \<open>stat\<close>.
\<close>

definition countVote :: "int \<Rightarrow> ReviewerStat \<Rightarrow> ReviewerStat" where
  "countVote v stat =
     (if v \<ge> 10 then stat\<lparr>approvedCount := approvedCount stat + 1\<rparr>
      else if v = -5 then stat\<lparr>waitingForAuthorCount := waitingForAuthorCount stat + 1\<rparr>
      else if v \<le> -10 then stat\<lparr>rejectedCount := rejectedCount stat + 1\<rparr>
      else stat\<lparr>pendingCount := pendingCount stat + 1\<rparr>)"

text \<open>
  The statements of the loop body after \<open>const stat = statsMap.get(email)!\<close>: the two
  increments, the vote branch and the push of the detail record.
\<close>

definition recordAssignment ::
  "GitPullRequest \<Rightarrow> IdentityRefWithVote \<Rightarrow> ReviewerStat \<Rightarrow> ReviewerStat" where
  "recordAssignment pr reviewer stat =
     (let stat1 = stat\<lparr>totalCount := totalCount stat + 1\<rparr>;
          stat2 = stat1\<lparr>requiredCount := requiredCount stat1 + 1\<rparr>;
          v = orZero (vote reviewer);
          stat3 = countVote v stat2
      in stat3\<lparr>prs := prs stat3 @
           [\<lparr> ref_id = orZero (pullRequestId pr),
              ref_title = orString (pr_title pr) [],
              ref_isRequired = True,
              ref_vote = (case VoteLabels v of None \<Rightarrow> ''No vote''
                         | Some l \<Rightarrow> if l = [] then ''No vote'' else l) \<rparr>]\<rparr>)"

text \<open>
  One pass of the inner loop body. The two \<open>continue\<close> statements return the map
  unchanged. \<open>statsMap.get(email)!\<close> cannot be absent, since the key was stored just
  before (lemma \<open>Map_get_ensured\<close> below); the branch is kept so that the model is total.
  The mutation of \<open>stat\<close> through its reference is the store of the updated object
  under the same key.
\<close>

definition reviewerEmail :: "IdentityRefWithVote \<Rightarrow> string" where
  "reviewerEmail reviewer = orString (map_option toLowerCase (uniqueName reviewer)) []"

definition processReviewer ::
  "GitPullRequest \<Rightarrow> statsMap \<Rightarrow> IdentityRefWithVote \<Rightarrow> statsMap" where
  "processReviewer pr statsMap reviewer =
     (if \<not> truthy (isRequired reviewer) then statsMap
      else
        let email = reviewerEmail reviewer in
        if email = [] then statsMap
        else
          let statsMap1 =
                (if \<not> Map_has statsMap email
                 then Map_set statsMap email (newStat reviewer)
                 else statsMap)
          in case Map_get statsMap1 email of
               None \<Rightarrow> statsMap1
             | Some stat \<Rightarrow> Map_set statsMap1 email (recordAssignment pr reviewer stat))"

definition reviewersOf :: "GitPullRequest \<Rightarrow> IdentityRefWithVote list" where
  "reviewersOf pr = (case pr_reviewers pr of None \<Rightarrow> [] | Some rs \<Rightarrow> rs)"

definition nonDraftPRs :: "GitPullRequest list \<Rightarrow> GitPullRequest list" where
  "nonDraftPRs allPRs = filter (\<lambda>pr. \<not> truthy (isDraft pr)) allPRs"

definition aggregateStats :: "GitPullRequest list \<Rightarrow> statsMap" where
  "aggregateStats allPRs =
     foldl (\<lambda>statsMap pr. foldl (processReviewer pr) statsMap (reviewersOf pr))
       [] (nonDraftPRs allPRs)"


section \<open>Sorting the aggregate\<close>

text \<open>
  The comparator handed to \<open>Array.prototype.sort\<close>:
  \<open>(a, b) => b.requiredCount - a.requiredCount || b.totalCount - a.totalCount\<close>.
\<close>

definition compareStats :: "ReviewerStat \<Rightarrow> ReviewerStat \<Rightarrow> int" where
  "compareStats a b =
     (let d = int (requiredCount b) - int (requiredCount a)
      in if d \<noteq> 0 then d else int (totalCount b) - int (totalCount a))"

text \<open>
  \<open>Array.prototype.sort\<close> is a stable sort (ECMAScript 2019): an element goes before
  another when the comparator is negative, and elements the comparator calls equal keep
  their order. For a consistent comparator that fixes the result, whatever algorithm the
  engine runs; the model is the stable insertion sort.
\<close>

fun Array_insert :: "('a \<Rightarrow> 'a \<Rightarrow> int) \<Rightarrow> 'a \<Rightarrow> 'a list \<Rightarrow> 'a list" where
  "Array_insert cmp x [] = [x]"
| "Array_insert cmp x (y # ys) =
     (if cmp x y \<le> 0 then x # y # ys else y # Array_insert cmp x ys)"

definition Array_sort :: "('a \<Rightarrow> 'a \<Rightarrow> int) \<Rightarrow> 'a list \<Rightarrow> 'a list" where
  "Array_sort cmp xs = foldr (Array_insert cmp) xs []"

definition sortedStats :: "GitPullRequest list \<Rightarrow> ReviewerStat list" where
  "sortedStats allPRs = Array_sort compareStats (Map_values (aggregateStats allPRs))"

section \<open>Strings of the report\<close>

text \<open>\<open>String(n)\<close> for a count: its decimal digits.\<close>

definition digitChar :: "nat \<Rightarrow> char" where
  "digitChar d = ''0123456789'' ! (d mod 10)"

function showNat :: "nat \<Rightarrow> string" where
  "showNat n = (if n < 10 then [digitChar n] else showNat (n div 10) @ [digitChar (n mod 10)])"
  by pat_completeness auto
termination
  by (relation "measure id") auto

declare showNat.simps [simp del]

text \<open>
  \<open>padEnd\<close> and \<open>padStart\<close> with blanks, up to a width counted in code units.
\<close>

definition padEnd :: "string \<Rightarrow> nat \<Rightarrow> string" where
  "padEnd s w = s @ replicate (w - length s) (CHR '' '')"

definition padStart :: "string \<Rightarrow> nat \<Rightarrow> string" where
  "padStart s w = replicate (w - length s) (CHR '' '') @ s"

fun join :: "string \<Rightarrow> string list \<Rightarrow> string" where
  "join sep [] = []"
| "join sep [x] = x"
| "join sep (x # y # ys) = x @ sep @ join sep (y # ys)"

section \<open>The badge classifier (assignBadges, pickRandomBadge)\<close>

text \<open>
  The rates and the average are JavaScript doubles in the source. They are quotients and
  products of counts, compared with the constants 0.5, 0.7, 0.8, 1 and 1.5; the model
  computes them in the rationals.
\<close>

record ReviewerBadge =
  reviewer :: ReviewerStat
  emoji :: string
  title :: string
  description :: string

text \<open>
  \<open>stats.reduce((sum, r) => sum + r.requiredCount, 0) / stats.length || 0\<close>: on the
  empty array the quotient is \<open>NaN\<close>, which \<open>||\<close> replaces by 0.
\<close>

definition avgRequired :: "ReviewerStat list \<Rightarrow> rat" where
  "avgRequired stats =
     (if length stats = 0 then 0
      else of_nat (foldl (\<lambda>sum r. sum + requiredCount r) 0 stats) / of_nat (length stats))"

definition isHighVolume :: "rat \<Rightarrow> ReviewerStat \<Rightarrow> bool" where
  "isHighVolume avg r = (of_nat (requiredCount r) \<ge> avg * 1.5)"

definition isLowVolume :: "rat \<Rightarrow> ReviewerStat \<Rightarrow> bool" where
  "isLowVolume avg r = (of_nat (requiredCount r) \<le> max 1 (avg * 0.5))"

definition isMedVolume :: "rat \<Rightarrow> ReviewerStat \<Rightarrow> bool" where
  "isMedVolume avg r = (\<not> isHighVolume avg r \<and> \<not> isLowVolume avg r)"

definition completionRate :: "ReviewerStat \<Rightarrow> rat" where
  "completionRate r = of_nat (approvedCount r) / of_nat (requiredCount r)"

definition unreviewedRate :: "ReviewerStat \<Rightarrow> rat" where
  "unreviewedRate r = of_nat (pendingCount r) / of_nat (requiredCount r)"

text \<open>
  The emoji glyphs lie outside the range of the model's characters; they stand as their
  UTF-8 bytes. They are only concatenated into the badge line, never measured or
  compared.
\<close>

definition mkBadge :: "ReviewerStat \<Rightarrow> string \<Rightarrow> string \<Rightarrow> string \<Rightarrow> ReviewerBadge" where
  "mkBadge r e t d = \<lparr> reviewer = r, emoji = e, title = t, description = d \<rparr>"

text \<open>
  The body of the loop of \<open>assignBadges\<close>: the \<open>continue\<close> on a reviewer without
  required reviews, then the \<open>if ... else if\<close> chain, each branch pushing one badge.
\<close>

definition badgeStep :: "rat \<Rightarrow> ReviewerBadge list \<Rightarrow> ReviewerStat \<Rightarrow> ReviewerBadge list" where
  "badgeStep avg badges r =
     (if requiredCount r = 0 then badges
      else if isHighVolume avg r \<and> completionRate r \<ge> 0.8 then
        badges @ [mkBadge r [CHR 0xF0, CHR 0x9F, CHR 0xA6, CHR 0xB8] ''Super Reviewer''
          (displayName r @ '' is crushing it with '' @ showNat (approvedCount r) @ ''/''
             @ showNat (requiredCount r) @ '' reviews complete!'')]
      else if isHighVolume avg r \<and> unreviewedRate r \<ge> 0.5 then
        badges @ [mkBadge r [CHR 0xF0, CHR 0x9F, CHR 0x86, CHR 0x98] ''Needs Backup''
          (displayName r @ '' has '' @ showNat (pendingCount r)
             @ '' unreviewed PRs - someone throw them a lifeline!'')]
      else if (isLowVolume avg r \<or> isMedVolume avg r) \<and> unreviewedRate r \<ge> 0.7
              \<and> pendingCount r \<ge> 2 then
        badges @ [mkBadge r [CHR 0xF0, CHR 0x9F, CHR 0x98, CHR 0xB4] ''Needs Coffee''
          (displayName r @ '' has '' @ showNat (pendingCount r)
             @ '' PRs waiting... wakey wakey!'')]
      else if isLowVolume avg r \<and> requiredCount r \<le> 1 then
        badges @ [mkBadge r [CHR 0xF0, CHR 0x9F, CHR 0xAA, CHR 0x91] ''Benchwarmer''
          (displayName r @ '' is barely in the game with only '' @ showNat (requiredCount r)
             @ '' PR'' @ (if requiredCount r = 1 then [] else ''s'') @ ''. Put them in, coach!'')]
      else if requiredCount r \<ge> 2 \<and> completionRate r = 1 then
        badges @ [mkBadge r [CHR 0xE2, CHR 0x9C, CHR 0xA8] ''Flawless''
          (displayName r @ '' has reviewed every single PR assigned. Respect.'')]
      else if rejectedCount r \<ge> 1 then
        badges @ [mkBadge r [CHR 0xF0, CHR 0x9F, CHR 0x9A, CHR 0xAB] ''Gatekeeper''
          (displayName r @ '' isn'' @ [CHR 0x27] @ ''t afraid to say no - ''
             @ showNat (rejectedCount r) @ '' rejection''
             @ (if rejectedCount r = 1 then [] else ''s'') @ '' and counting.'')]
      else if waitingForAuthorCount r \<ge> 2 then
        badges @ [mkBadge r [CHR 0xE2, CHR 0x8F, CHR 0xB3] ''Waiting Room''
          (displayName r @ '' is stuck waiting on authors for ''
             @ showNat (waitingForAuthorCount r) @ '' PRs. Ball'' @ [CHR 0x27]
             @ ''s in your court, devs!'')]
      else if isMedVolume avg r \<and> completionRate r \<ge> 0.7 then
        badges @ [mkBadge r [CHR 0xE2, CHR 0x9A, CHR 0xA1] ''Speed Demon''
          (displayName r @ '' is keeping the pipeline moving with ''
             @ showNat (approvedCount r) @ ''/'' @ showNat (requiredCount r) @ '' done.'')]
      else badges)"

definition assignBadges :: "ReviewerStat list \<Rightarrow> ReviewerBadge list" where
  "assignBadges stats = foldl (badgeStep (avgRequired stats)) [] stats"

text \<open>
  \<open>badges[Math.floor(Math.random() * badges.length)]\<close>. The value of \<open>Math.random()\<close>,
  a number in [0, 1), is the parameter \<open>random\<close>; an index outside the array reads
  \<open>undefined\<close>, which the caller treats like \<open>null\<close>.
\<close>

definition pickRandomBadge :: "rat \<Rightarrow> ReviewerBadge list \<Rightarrow> ReviewerBadge option" where
  "pickRandomBadge random badges =
     (if length badges = 0 then None
      else let i = \<lfloor>random * of_nat (length badges)\<rfloor>
           in if 0 \<le> i \<and> i < int (length badges) then Some (badges ! nat i) else None)"


section \<open>The report renderer (generateMarkdownTable)\<close>

definition newline :: string where
  "newline = [CHR 0x0A]"

definition headerRow :: "string list \<Rightarrow> nat list \<Rightarrow> string" where
  "headerRow hs ws = join ''  '' (map (\<lambda>(h, w). padEnd h w) (zip hs ws))"

definition dashRow :: "nat list \<Rightarrow> string" where
  "dashRow ws = join ''  '' (map (\<lambda>w. replicate w (CHR ''-'')) ws)"

definition dataRow :: "bool \<Rightarrow> nat list \<Rightarrow> ReviewerStat \<Rightarrow> string" where
  "dataRow requiredOnly ws r =
     (if requiredOnly then
        join ''  ''
          [padEnd (displayName r) (ws ! 0),
           padStart (showNat (requiredCount r)) (ws ! 1),
           padStart (showNat (approvedCount r)) (ws ! 2),
           padStart (showNat (waitingForAuthorCount r)) (ws ! 3),
           padStart (showNat (rejectedCount r)) (ws ! 4),
           padStart (showNat (pendingCount r)) (ws ! 5)]
      else
        join ''  ''
          [padEnd (displayName r) (ws ! 0),
           padStart (showNat (requiredCount r)) (ws ! 1),
           padStart (showNat (optionalCount r)) (ws ! 2),
           padStart (showNat (totalCount r)) (ws ! 3),
           padStart (showNat (approvedCount r)) (ws ! 4),
           padStart (showNat (waitingForAuthorCount r)) (ws ! 5),
           padStart (showNat (rejectedCount r)) (ws ! 6),
           padStart (showNat (pendingCount r)) (ws ! 7)])"

definition filteredStats :: "bool \<Rightarrow> ReviewerStat list \<Rightarrow> ReviewerStat list" where
  "filteredStats requiredOnly stats =
     (if requiredOnly then filter (\<lambda>r. requiredCount r > 0) stats else stats)"

text \<open>
  The local constants of the renderer: \<open>nameWidth\<close> is
  \<open>Math.max(8, ...filteredStats.map(r => r.displayName.length))\<close>; \<open>headers\<close> and
  \<open>widths\<close> are the arrays of the branch that \<open>requiredOnly\<close> selects.
\<close>

definition nameWidth :: "ReviewerStat list \<Rightarrow> nat" where
  "nameWidth filtered = foldl max 8 (map (\<lambda>r. length (displayName r)) filtered)"

definition headers :: "bool \<Rightarrow> string list" where
  "headers requiredOnly =
     (if requiredOnly
      then [''Reviewer'', ''Required'', ''Approved'', ''Waiting for Author'',
            ''Rejected'', ''Unreviewed'']
      else [''Reviewer'', ''Required'', ''Optional'', ''Total'', ''Approved'',
            ''Waiting for Author'', ''Rejected'', ''Unreviewed''])"

definition widths :: "bool \<Rightarrow> ReviewerStat list \<Rightarrow> nat list" where
  "widths requiredOnly filtered =
     (if requiredOnly then [nameWidth filtered, 8, 8, 18, 8, 10]
      else [nameWidth filtered, 8, 8, 5, 8, 18, 8, 10])"

text \<open>The array \<open>lines\<close> at the \<open>return\<close> that is taken; the result is its join.\<close>

definition tableLines :: "rat \<Rightarrow> ReviewerStat list \<Rightarrow> nat \<Rightarrow> bool \<Rightarrow> string list" where
  "tableLines random stats totalPRs requiredOnly =
     (let lines0 = [''Reviewer Statistics ('' @ showNat totalPRs @ '' Active PRs)'' @ newline];
          filtered = filteredStats requiredOnly stats
      in if length filtered = 0 then lines0 @ [''No reviewers found.'']
         else
           let lines1 = lines0
                 @ [headerRow (headers requiredOnly) (widths requiredOnly filtered),
                    dashRow (widths requiredOnly filtered)]
                 @ map (dataRow requiredOnly (widths requiredOnly filtered)) filtered
           in case pickRandomBadge random (assignBadges filtered) of
                None \<Rightarrow> lines1
              | Some badge \<Rightarrow>
                  lines1 @ [[], emoji badge @ '' '' @ title badge @ '': '' @ description badge])"

definition generateMarkdownTable :: "rat \<Rightarrow> ReviewerStat list \<Rightarrow> nat \<Rightarrow> bool \<Rightarrow> string" where
  "generateMarkdownTable random stats totalPRs requiredOnly =
     join newline (tableLines random stats totalPRs requiredOnly)"

section \<open>The tool's entry point (reviewerStats, after the pull requests are fetched)\<close>

record ReviewerStatsResult =
  reviewers :: "ReviewerStat list"
  totalPRs :: nat
  markdown :: string

record OperationResult =
  success :: bool
  message :: string
  data :: "ReviewerStatsResult option"
  error :: "string option"

text \<open>
  \<open>allPRs\<close> is what the calls to the service returned; \<open>requiredOnly\<close> is the optional
  parameter, read as \<open>params.requiredOnly !== false\<close>. The \<open>catch\<close> branch belongs to
  those calls: nothing after them throws.
\<close>

definition reviewerStats :: "rat \<Rightarrow> bool option \<Rightarrow> GitPullRequest list \<Rightarrow> OperationResult" where
  "reviewerStats random requiredOnly allPRs =
     (let nonDraft = nonDraftPRs allPRs;
          sorted = sortedStats allPRs;
          md = generateMarkdownTable random sorted (length nonDraft) (requiredOnly \<noteq> Some False)
      in \<lparr> success = True,
           message = ''Generated stats for '' @ showNat (length sorted) @ '' reviewers across ''
             @ showNat (length nonDraft) @ '' PRs (''
             @ showNat (length allPRs - length nonDraft) @ '' drafts excluded)'',
           data = Some \<lparr> reviewers = sorted, totalPRs = length nonDraft, markdown = md \<rparr>,
           error = None \<rparr>)"

section \<open>The operational script (reviewer-stats-discord.ps1)\<close>

text \<open>
  The PowerShell script aggregates the same pull requests on its own. Its statistics
  are hashtables with the fields below; \<open>Blocked\<close> counts waiting-for-author and rejected
  votes together. The script's table rendering and the posting of the message are not
  modelled, nor are the message texts of its badges.
\<close>

record ScriptStat =
  Name :: string
  Email :: string
  Required :: nat
  Approved :: nat
  Blocked :: nat
  Unreviewed :: nat

type_synonym scriptMap = "(string \<times> ScriptStat) list"

fun Hashtable_set :: "scriptMap \<Rightarrow> string \<Rightarrow> ScriptStat \<Rightarrow> scriptMap" where
  "Hashtable_set [] k v = [(k, v)]"
| "Hashtable_set (p # ps) k v = (if fst p = k then (k, v) # ps else p # Hashtable_set ps k v)"

text \<open>\<open>($fullName -split ' ')[0]\<close>: the display name up to its first blank.\<close>

definition firstName :: "string option \<Rightarrow> string" where
  "firstName fullName =
     (case fullName of None \<Rightarrow> [] | Some n \<Rightarrow> takeWhile (\<lambda>c. c \<noteq> CHR '' '') n)"

text \<open>
  The vote branch of the script. An absent vote is \<open>$null\<close>, for which none of
  \<open>-ge 5\<close>, \<open>-eq -5\<close> and \<open>-le -10\<close> holds.
\<close>

definition scriptCountVote :: "int option \<Rightarrow> ScriptStat \<Rightarrow> ScriptStat" where
  "scriptCountVote v stat =
     (case v of
        None \<Rightarrow> stat\<lparr>Unreviewed := Unreviewed stat + 1\<rparr>
      | Some n \<Rightarrow>
          if n \<ge> 5 then stat\<lparr>Approved := Approved stat + 1\<rparr>
          else if n = -5 \<or> n \<le> -10 then stat\<lparr>Blocked := Blocked stat + 1\<rparr>
          else stat\<lparr>Unreviewed := Unreviewed stat + 1\<rparr>)"

text \<open>
  One pass of the script's inner loop body. The state is the variable \<open>$email\<close> (\<open>emailVar\<close>) and the
  hashtable. \<open>$reviewer.uniqueName.ToLower()\<close> on an absent name is a method call on
  \<open>$null\<close>: the assignment fails and \<open>$email\<close> keeps the value of the pass before.
\<close>

definition scriptProcessReviewer ::
  "string option \<times> scriptMap \<Rightarrow> IdentityRefWithVote \<Rightarrow> string option \<times> scriptMap" where
  "scriptProcessReviewer st rvw =
     (let emailVar = fst st; stats = snd st in
      if \<not> truthy (isRequired rvw) then st
      else
        let emailVar1 = (case uniqueName rvw of
                           None \<Rightarrow> emailVar
                         | Some u \<Rightarrow> Some (toLowerCase u))
        in case emailVar1 of
             None \<Rightarrow> (emailVar1, stats)
           | Some em \<Rightarrow>
               if em = [] then (emailVar1, stats)
               else
                 let stats1 =
                       (if map_of stats em = None
                        then Hashtable_set stats em
                               \<lparr> Name = firstName (rv_displayName rvw), Email = em,
                                 Required = 0, Approved = 0, Blocked = 0, Unreviewed = 0 \<rparr>
                        else stats)
                 in (case map_of stats1 em of
                       None \<Rightarrow> (emailVar1, stats1)
                     | Some stat \<Rightarrow>
                         (emailVar1,
                          Hashtable_set stats1 em
                            (scriptCountVote (vote rvw)
                               (stat\<lparr>Required := Required stat + 1\<rparr>)))))"

definition scriptAggregate :: "GitPullRequest list \<Rightarrow> scriptMap" where
  "scriptAggregate allPRs =
     snd (foldl (\<lambda>st pr. foldl scriptProcessReviewer st (reviewersOf pr))
            (None, []) (nonDraftPRs allPRs))"

text \<open>
  \<open>Sort-Object -Property Required -Descending\<close> over the hashtable's values. The
  platform fixes neither the order in which a hashtable is enumerated nor the order of
  ties; the model enumerates in insertion order and sorts stably, and what is proved of
  the script speaks of counts and of sets of pairs only.
\<close>

definition scriptSortedStats :: "GitPullRequest list \<Rightarrow> ScriptStat list" where
  "scriptSortedStats allPRs =
     Array_sort (\<lambda>a b. int (Required b) - int (Required a)) (map snd (scriptAggregate allPRs))"

text \<open>\<open>Measure-Object -Average\<close> over the \<open>Required\<close> fields.\<close>

definition scriptAvgRequired :: "ScriptStat list \<Rightarrow> rat" where
  "scriptAvgRequired stats =
     (if length stats > 0
      then of_nat (sum_list (map Required stats)) / of_nat (length stats)
      else 0)"

text \<open>The table \<open>$badges\<close>: shortcode, title and condition of each entry, in its order.\<close>

definition scriptBadges :: "(string \<times> string \<times> (ScriptStat \<Rightarrow> rat \<Rightarrow> bool)) list" where
  "scriptBadges =
     [('':superhero:'', ''Super Reviewer'',
         \<lambda>r avg. of_nat (Required r) \<ge> avg * 1.5 \<and> Required r > 0
                \<and> (of_nat (Approved r) / of_nat (Required r) :: rat) \<ge> 0.8),
      ('':sos:'', ''Needs Backup'',
         \<lambda>r avg. of_nat (Required r) \<ge> avg * 1.5 \<and> Required r > 0
                \<and> (of_nat (Unreviewed r) / of_nat (Required r) :: rat) \<ge> 0.5),
      ('':sleeping:'', ''Needs Coffee'',
         \<lambda>r avg. of_nat (Required r) \<le> avg * 0.5 \<and> Required r > 0 \<and> Unreviewed r \<ge> 2
                \<and> (of_nat (Unreviewed r) / of_nat (Required r) :: rat) \<ge> 0.7),
      ('':chair:'', ''Benchwarmer'',
         \<lambda>r avg. Required r \<le> 1 \<and> Required r > 0),
      ('':sparkles:'', ''Flawless'',
         \<lambda>r avg. Required r \<ge> 2 \<and> Approved r = Required r),
      ('':no_entry_sign:'', ''Gatekeeper'',
         \<lambda>r avg. Blocked r \<ge> 1),
      ('':hourglass:'', ''Waiting Room'',
         \<lambda>r avg. Blocked r \<ge> 2),
      ('':zap:'', ''Speed Demon'',
         \<lambda>r avg. of_nat (Required r) > avg * 0.5 \<and> of_nat (Required r) < avg * 1.5
                \<and> Required r > 0
                \<and> (of_nat (Approved r) / of_nat (Required r) :: rat) \<ge> 0.7)]"

text \<open>
  The nested loops that fill \<open>$applicableBadges\<close>: every badge whose condition holds is
  recorded, for every statistic. The script exits before them when there are no
  statistics.
\<close>

definition applicableBadges :: "GitPullRequest list \<Rightarrow> ((string \<times> string) \<times> ScriptStat) list" where
  "applicableBadges allPRs =
     (let sorted = scriptSortedStats allPRs in
      if length sorted = 0 then []
      else
        let avg = scriptAvgRequired sorted
        in concat (map (\<lambda>stat.
             map (\<lambda>badge. ((fst badge, fst (snd badge)), stat))
               (filter (\<lambda>badge. snd (snd badge) stat avg) scriptBadges)) sorted))"


section \<open>Notions used in the statements\<close>

text \<open>
  An assignment is counted when it passes both \<open>continue\<close> guards of the loop body: it is
  required and its lower-cased identity is not empty. \<open>assignments\<close> lists the counted
  assignments of the pull requests that are not drafts, in the order the loops visit them.
\<close>

definition counted :: "IdentityRefWithVote \<Rightarrow> bool" where
  "counted rv = (truthy (isRequired rv) \<and> reviewerEmail rv \<noteq> [])"

definition assignments :: "GitPullRequest list \<Rightarrow> (GitPullRequest \<times> IdentityRefWithVote) list" where
  "assignments allPRs =
     concat (map (\<lambda>pr. map (Pair pr) (filter counted (reviewersOf pr))) (nonDraftPRs allPRs))"

text \<open>What the loop body does to the map for a counted assignment, in one step.\<close>

definition upsert :: "GitPullRequest \<Rightarrow> IdentityRefWithVote \<Rightarrow> statsMap \<Rightarrow> statsMap" where
  "upsert pr rv m =
     (case map_of m (reviewerEmail rv) of
        None \<Rightarrow> m @ [(reviewerEmail rv, recordAssignment pr rv (newStat rv))]
      | Some s \<Rightarrow> Map_set m (reviewerEmail rv) (recordAssignment pr rv s))"

text \<open>
  Two identities differ only in letter case when they have the same length and, place by
  place, hold the same character or the capital and the small form of one letter.
\<close>

definition caseVariant :: "char \<Rightarrow> char \<Rightarrow> bool" where
  "caseVariant c d = (isUpperChar c \<and> (of_char d :: nat) = of_char c + 32)"

definition sameUpToCase :: "string \<Rightarrow> string \<Rightarrow> bool" where
  "sameUpToCase u v = list_all2 (\<lambda>c d. c = d \<or> caseVariant c d \<or> caseVariant d c) u v"

text \<open>The required count recorded under a key, 0 when the key is absent.\<close>

definition requiredAt :: "statsMap \<Rightarrow> string \<Rightarrow> nat" where
  "requiredAt m k = (case Map_get m k of None \<Rightarrow> 0 | Some s \<Rightarrow> requiredCount s)"

text \<open>
  The vote classifier as the specification words it: four buckets, and the rule
  "vote >= 10, else vote = -5, else vote <= -10, otherwise pending", first match wins.
\<close>

datatype VoteBucket = ApprovedBucket | WaitingForAuthorBucket | RejectedBucket | PendingBucket

definition classify :: "int \<Rightarrow> VoteBucket" where
  "classify v =
     (if v \<ge> 10 then ApprovedBucket
      else if v = -5 then WaitingForAuthorBucket
      else if v \<le> -10 then RejectedBucket
      else PendingBucket)"

fun bucketCount :: "VoteBucket \<Rightarrow> ReviewerStat \<Rightarrow> nat" where
  "bucketCount ApprovedBucket s = approvedCount s"
| "bucketCount WaitingForAuthorBucket s = waitingForAuthorCount s"
| "bucketCount RejectedBucket s = rejectedCount s"
| "bucketCount PendingBucket s = pendingCount s"

fun incrementBucket :: "VoteBucket \<Rightarrow> ReviewerStat \<Rightarrow> ReviewerStat" where
  "incrementBucket ApprovedBucket s = s\<lparr>approvedCount := approvedCount s + 1\<rparr>"
| "incrementBucket WaitingForAuthorBucket s =
     s\<lparr>waitingForAuthorCount := waitingForAuthorCount s + 1\<rparr>"
| "incrementBucket RejectedBucket s = s\<lparr>rejectedCount := rejectedCount s + 1\<rparr>"
| "incrementBucket PendingBucket s = s\<lparr>pendingCount := pendingCount s + 1\<rparr>"

text \<open>
  The order of the report: descending by required count, ties by descending total count.
\<close>

definition descOrder :: "ReviewerStat \<Rightarrow> ReviewerStat \<Rightarrow> bool" where
  "descOrder a b = (requiredCount a > requiredCount b
      \<or> (requiredCount a = requiredCount b \<and> totalCount a \<ge> totalCount b))"

text \<open>
  The rule table of the specification's badge classifier, in its order: title and
  condition of each rule. \<open>firstMatch\<close> is the title of the first rule whose condition
  holds; \<open>classify_badges\<close> leaves out the reviewers without required reviews and
  pairs every other reviewer with its first match, when it has one.
\<close>

definition badgeRules :: "rat \<Rightarrow> (string \<times> (ReviewerStat \<Rightarrow> bool)) list" where
  "badgeRules avg =
     [(''Super Reviewer'', \<lambda>r. isHighVolume avg r \<and> completionRate r \<ge> 0.8),
      (''Needs Backup'', \<lambda>r. isHighVolume avg r \<and> unreviewedRate r \<ge> 0.5),
      (''Needs Coffee'', \<lambda>r. (isLowVolume avg r \<or> isMedVolume avg r)
                              \<and> unreviewedRate r \<ge> 0.7 \<and> pendingCount r \<ge> 2),
      (''Benchwarmer'', \<lambda>r. isLowVolume avg r \<and> requiredCount r \<le> 1),
      (''Flawless'', \<lambda>r. requiredCount r \<ge> 2 \<and> completionRate r = 1),
      (''Gatekeeper'', \<lambda>r. rejectedCount r \<ge> 1),
      (''Waiting Room'', \<lambda>r. waitingForAuthorCount r \<ge> 2),
      (''Speed Demon'', \<lambda>r. isMedVolume avg r \<and> completionRate r \<ge> 0.7)]"

definition firstMatch :: "(string \<times> (ReviewerStat \<Rightarrow> bool)) list \<Rightarrow> ReviewerStat \<Rightarrow> string option" where
  "firstMatch rules r = map_option fst (find (\<lambda>rule. snd rule r) rules)"

definition classify_badges :: "ReviewerStat list \<Rightarrow> (ReviewerStat \<times> string) list" where
  "classify_badges stats =
     concat (map (\<lambda>r. if requiredCount r = 0 then []
                        else case firstMatch (badgeRules (avgRequired stats)) r of
                               None \<Rightarrow> []
                             | Some t \<Rightarrow> [(r, t)]) stats)"

text \<open>
  The four counts the tool and the script are compared on: required, approved, blocked
  (waiting for author and rejected together) and unreviewed. A vote is read alike by
  both when it is not one of 5 to 9, which the script counts as approved and the tool as
  pending.
\<close>

definition toolCounts :: "ReviewerStat \<Rightarrow> nat \<times> nat \<times> nat \<times> nat" where
  "toolCounts s =
     (requiredCount s, approvedCount s, waitingForAuthorCount s + rejectedCount s, pendingCount s)"

definition scriptCounts :: "ScriptStat \<Rightarrow> nat \<times> nat \<times> nat \<times> nat" where
  "scriptCounts t = (Required t, Approved t, Blocked t, Unreviewed t)"

definition voteAgreed :: "IdentityRefWithVote \<Rightarrow> bool" where
  "voteAgreed rv = (\<not> (5 \<le> orZero (vote rv) \<and> orZero (vote rv) < 10))"

text \<open>
  The script's loop body for a counted assignment, in one step, as \<open>upsert\<close> is for the
  tool; \<open>agree\<close> relates the two tables entry by entry: same key, related statistics.
\<close>

definition newScriptStat :: "IdentityRefWithVote \<Rightarrow> ScriptStat" where
  "newScriptStat rv =
     \<lparr> Name = firstName (rv_displayName rv), Email = reviewerEmail rv,
       Required = 0, Approved = 0, Blocked = 0, Unreviewed = 0 \<rparr>"

definition scriptRecord :: "IdentityRefWithVote \<Rightarrow> ScriptStat \<Rightarrow> ScriptStat" where
  "scriptRecord rv t = scriptCountVote (vote rv) (t\<lparr>Required := Required t + 1\<rparr>)"

definition scriptUpsert :: "IdentityRefWithVote \<Rightarrow> scriptMap \<Rightarrow> scriptMap" where
  "scriptUpsert rv m =
     (case map_of m (reviewerEmail rv) of
        None \<Rightarrow> m @ [(reviewerEmail rv, scriptRecord rv (newScriptStat rv))]
      | Some t \<Rightarrow> Hashtable_set m (reviewerEmail rv) (scriptRecord rv t))"

definition agree :: "(ReviewerStat \<Rightarrow> ScriptStat \<Rightarrow> bool) \<Rightarrow> statsMap \<Rightarrow> scriptMap \<Rightarrow> bool" where
  "agree rel m sm = list_all2 (\<lambda>a b. fst a = fst b \<and> rel (snd a) (snd b)) m sm"

subsection \<open>Example inputs\<close>

definition mkReviewer :: "string \<Rightarrow> string \<Rightarrow> bool \<Rightarrow> int \<Rightarrow> IdentityRefWithVote" where
  "mkReviewer n e rq v =
     \<lparr> rv_displayName = Some n, uniqueName = Some e, isRequired = Some rq, vote = Some v \<rparr>"

definition mkPR :: "int \<Rightarrow> bool \<Rightarrow> IdentityRefWithVote list \<Rightarrow> GitPullRequest" where
  "mkPR i d rs =
     \<lparr> pullRequestId = Some i, pr_title = Some ''T'', isDraft = Some d, pr_reviewers = Some rs \<rparr>"

text \<open>
  Two pull requests under review and a draft. Ann and Bob have two required assignments
  each, under identities that differ in letter case; Cy appears on the draft only, Dee is
  optional.
\<close>

definition examplePRs :: "GitPullRequest list" where
  "examplePRs =
     [mkPR 1 False [mkReviewer ''Ann Lee'' ''Ann@x.io'' True 10,
                    mkReviewer ''Bob'' ''bob@x.io'' True 5,
                    mkReviewer ''Ann Lee'' ''ann@x.io'' True (-5)],
      mkPR 2 True [mkReviewer ''Cy'' ''cy@x.io'' True 0],
      mkPR 3 False [mkReviewer ''Dee'' ''dee@x.io'' False 0,
                    mkReviewer ''Bob'' ''BOB@x.io'' True (-10)]]"

text \<open>
  Ann has approved both of her required reviews, Bob has looked at neither of his.
\<close>

definition badgePRs :: "GitPullRequest list" where
  "badgePRs =
     [mkPR 1 False [mkReviewer ''Ann Lee'' ''ann@x.io'' True 10, mkReviewer ''Bob'' ''bob@x.io'' True 0],
      mkPR 2 False [mkReviewer ''Ann Lee'' ''ann@x.io'' True 10, mkReviewer ''Bob'' ''bob@x.io'' True 0]]"

text \<open>One pull request whose only reviewer approved with suggestions.\<close>

definition votePRs :: "GitPullRequest list" where
  "votePRs = [mkPR 1 False [mkReviewer ''Bob'' ''bob@x.io'' True 5]]"

section \<open>Properties of the map operations and of the loop\<close>

lemma Map_set_map_of: "map_of (Map_set m k v) = (map_of m)(k \<mapsto> v)"
  by (induction m) auto

lemma Map_set_keys:
  "map fst (Map_set m k v) = (if k \<in> set (map fst m) then map fst m else map fst m @ [k])"
  by (induction m) auto

lemma Map_set_absent: "k \<notin> fst ` set m \<Longrightarrow> Map_set m k v = m @ [(k, v)]"
  by (induction m) auto

lemma Map_set_subset: "set (Map_set m k v) \<subseteq> insert (k, v) (set m)"
  by (induction m) auto

lemma Map_get_ensured:
  "Map_get (if \<not> Map_has m k then Map_set m k v else m) k \<noteq> None"
  by (simp add: Map_has_def Map_get_def Map_set_map_of)

lemma Map_set_append_same:
  "k \<notin> fst ` set m \<Longrightarrow> Map_set (m @ [(k, v)]) k w = m @ [(k, w)]"
  by (induction m) auto

lemma processReviewer_eq:
  "processReviewer pr m rv = (if counted rv then upsert pr rv m else m)"
proof (cases "map_of m (reviewerEmail rv)")
  case None
  then have notin: "reviewerEmail rv \<notin> fst ` set m" by (simp add: map_of_eq_None_iff)
  have "Map_get (Map_set m (reviewerEmail rv) (newStat rv)) (reviewerEmail rv) = Some (newStat rv)"
    by (simp add: Map_get_def Map_set_map_of)
  moreover have "Map_set (Map_set m (reviewerEmail rv) (newStat rv)) (reviewerEmail rv) w
      = m @ [(reviewerEmail rv, w)]" for w
    by (simp add: Map_set_absent [OF notin] Map_set_append_same [OF notin])
  ultimately show ?thesis using None
    by (simp add: processReviewer_def counted_def upsert_def Let_def Map_has_def Map_get_def)
next
  case (Some s)
  then show ?thesis
    by (simp add: processReviewer_def counted_def upsert_def Let_def Map_has_def Map_get_def)
qed

lemma foldl_processReviewer:
  "foldl (processReviewer pr) m rvs
     = foldl (\<lambda>m (pr, rv). upsert pr rv m) m (map (Pair pr) (filter counted rvs))"
  by (induction rvs arbitrary: m) (simp_all add: processReviewer_eq)

lemma aggregateStats_assignments:
  "aggregateStats allPRs = foldl (\<lambda>m (pr, rv). upsert pr rv m) [] (assignments allPRs)"
proof -
  have "foldl (\<lambda>statsMap pr. foldl (processReviewer pr) statsMap (reviewersOf pr)) m ps
      = foldl (\<lambda>m (pr, rv). upsert pr rv m) m
          (concat (map (\<lambda>pr. map (Pair pr) (filter counted (reviewersOf pr))) ps))" for m ps
    by (induction ps arbitrary: m) (simp_all add: foldl_processReviewer)
  then show ?thesis by (simp add: aggregateStats_def assignments_def)
qed

lemma upsert_map_of:
  "map_of (upsert pr rv m) =
     (map_of m)(reviewerEmail rv \<mapsto>
        recordAssignment pr rv (case map_of m (reviewerEmail rv) of None \<Rightarrow> newStat rv | Some s \<Rightarrow> s))"
proof (cases "map_of m (reviewerEmail rv)")
  case None
  have "map_of (m @ [(k, v)]) = (map_of m)(k \<mapsto> v)" if "map_of m k = None" for k v
    using that by (intro ext) (simp add: map_add_def split: option.splits)
  with None show ?thesis by (simp add: upsert_def)
next
  case (Some s)
  then show ?thesis by (simp add: upsert_def Map_set_map_of)
qed

lemma upsert_keys:
  "map fst (upsert pr rv m) =
     (if reviewerEmail rv \<in> set (map fst m) then map fst m else map fst m @ [reviewerEmail rv])"
proof (cases "map_of m (reviewerEmail rv)")
  case None
  then have "reviewerEmail rv \<notin> fst ` set m" by (simp add: map_of_eq_None_iff)
  with None show ?thesis by (simp add: upsert_def)
next
  case (Some s)
  then have "(reviewerEmail rv, s) \<in> set m" by (rule map_of_SomeD)
  then have "reviewerEmail rv \<in> fst ` set m" by force
  with Some show ?thesis by (simp add: upsert_def Map_set_keys)
qed

lemma upsert_key_set:
  "set (map fst (upsert pr rv m)) = insert (reviewerEmail rv) (set (map fst m))"
  unfolding upsert_keys by auto

lemma upsert_values:
  assumes "\<forall>s \<in> snd ` set m. Q s"
    and "\<And>s. Q s \<or> s = newStat rv \<Longrightarrow> Q (recordAssignment pr rv s)"
  shows "\<forall>s \<in> snd ` set (upsert pr rv m). Q s"
proof (cases "map_of m (reviewerEmail rv)")
  case None
  then show ?thesis using assms by (auto simp: upsert_def)
next
  case (Some s)
  then have "(reviewerEmail rv, s) \<in> set m" by (rule map_of_SomeD)
  then have "s \<in> snd ` set m" by force
  then have "Q (recordAssignment pr rv s)" using assms by blast
  moreover have "set (Map_set m (reviewerEmail rv) (recordAssignment pr rv s))
      \<subseteq> insert (reviewerEmail rv, recordAssignment pr rv s) (set m)"
    by (rule Map_set_subset)
  ultimately show ?thesis using Some assms(1) by (auto simp: upsert_def)
qed

lemma fold_upsert_values:
  assumes step: "\<And>pr rv s. Q s \<or> s = newStat rv \<Longrightarrow> Q (recordAssignment pr rv s)"
  shows "\<forall>s \<in> snd ` set m. Q s \<Longrightarrow>
         \<forall>s \<in> snd ` set (foldl (\<lambda>m (pr, rv). upsert pr rv m) m as). Q s"
proof (induction as arbitrary: m)
  case Nil
  then show ?case by simp
next
  case (Cons a as)
  obtain pr rv where a: "a = (pr, rv)" by (cases a)
  have "\<forall>s \<in> snd ` set (upsert pr rv m). Q s"
    by (rule upsert_values [OF Cons.prems]) (rule step)
  then have "\<forall>s \<in> snd ` set (foldl (\<lambda>m (pr, rv). upsert pr rv m) (upsert pr rv m) as). Q s"
    by (rule Cons.IH)
  then show ?case unfolding a by simp
qed

lemma aggregateStats_values:
  assumes "\<And>pr rv s. Q s \<or> s = newStat rv \<Longrightarrow> Q (recordAssignment pr rv s)"
  shows "\<forall>s \<in> snd ` set (aggregateStats allPRs). Q s"
  unfolding aggregateStats_assignments
  by (rule fold_upsert_values [where Q = Q]) (simp_all add: assms)

lemma recordAssignment_counts:
  "requiredCount (recordAssignment pr rv s) = requiredCount s + 1"
  "totalCount (recordAssignment pr rv s) = totalCount s + 1"
  "optionalCount (recordAssignment pr rv s) = optionalCount s"
  "approvedCount (recordAssignment pr rv s) + waitingForAuthorCount (recordAssignment pr rv s)
     + rejectedCount (recordAssignment pr rv s) + pendingCount (recordAssignment pr rv s)
   = approvedCount s + waitingForAuthorCount s + rejectedCount s + pendingCount s + 1"
  by (simp_all add: recordAssignment_def countVote_def Let_def)

lemma aggregateStats_bucket_sum:
  "\<forall>s \<in> snd ` set (aggregateStats allPRs).
     approvedCount s + waitingForAuthorCount s + rejectedCount s + pendingCount s = requiredCount s"
  by (rule aggregateStats_values) (auto simp: recordAssignment_counts newStat_def)

lemma aggregateStats_required_only:
  "\<forall>s \<in> snd ` set (aggregateStats allPRs).
     optionalCount s = 0 \<and> totalCount s = requiredCount s \<and> requiredCount s \<ge> 1"
  by (rule aggregateStats_values) (auto simp: recordAssignment_counts newStat_def)

lemma aggregateStats_keys_fold:
  "set (map fst (foldl (\<lambda>m (pr, rv). upsert pr rv m) m as))
     = set (map fst m) \<union> (\<lambda>(pr, rv). reviewerEmail rv) ` set as"
proof (induction as arbitrary: m)
  case Nil
  then show ?case by simp
next
  case (Cons a as)
  obtain pr rv where a: "a = (pr, rv)" by (cases a)
  show ?case unfolding a foldl_Cons prod.case Cons.IH upsert_key_set by auto
qed

lemma aggregateStats_distinct_fold:
  "distinct (map fst m) \<Longrightarrow> distinct (map fst (foldl (\<lambda>m (pr, rv). upsert pr rv m) m as))"
  by (induction as arbitrary: m) (auto simp: upsert_keys split: if_splits)

lemma requiredAt_upsert:
  "requiredAt (upsert pr rv m) k = requiredAt m k + (if reviewerEmail rv = k then 1 else 0)"
  by (auto simp: requiredAt_def Map_get_def upsert_map_of recordAssignment_counts newStat_def
      split: option.splits)

lemma requiredAt_fold:
  "requiredAt (foldl (\<lambda>m (pr, rv). upsert pr rv m) m as) k
     = requiredAt m k + length (filter (\<lambda>(pr, rv). reviewerEmail rv = k) as)"
  by (induction as arbitrary: m) (auto simp: requiredAt_upsert)

lemma assignments_set:
  "set (assignments allPRs) =
     {(pr, rv). pr \<in> set allPRs \<and> \<not> truthy (isDraft pr) \<and> rv \<in> set (reviewersOf pr)
        \<and> truthy (isRequired rv) \<and> reviewerEmail rv \<noteq> []}"
  by (auto simp: assignments_def nonDraftPRs_def counted_def)

section \<open>Properties of the sort\<close>

lemma set_Array_insert: "set (Array_insert cmp x ys) = insert x (set ys)"
  by (induction ys) auto

lemma mset_Array_insert: "mset (Array_insert cmp x ys) = add_mset x (mset ys)"
  by (induction ys) auto

lemma mset_Array_sort: "mset (Array_sort cmp xs) = mset xs"
  by (induction xs) (simp_all add: Array_sort_def mset_Array_insert)

lemma set_Array_sort: "set (Array_sort cmp xs) = set xs"
  by (metis mset_Array_sort set_mset_mset)

lemma length_Array_sort: "length (Array_sort cmp xs) = length xs"
  by (metis mset_Array_sort size_mset)

lemma Array_sort_Cons: "Array_sort cmp (x # xs) = Array_insert cmp x (Array_sort cmp xs)"
  by (simp add: Array_sort_def)

lemma sorted_Array_insert:
  assumes trans: "\<And>a b c. cmp a b \<le> 0 \<Longrightarrow> cmp b c \<le> 0 \<Longrightarrow> cmp a c \<le> 0"
    and total: "\<And>a b. cmp a b \<le> 0 \<or> cmp b a \<le> 0"
  shows "sorted_wrt (\<lambda>a b. cmp a b \<le> 0) ys \<Longrightarrow> sorted_wrt (\<lambda>a b. cmp a b \<le> 0) (Array_insert cmp x ys)"
proof (induction ys)
  case Nil
  then show ?case by simp
next
  case (Cons y ys)
  show ?case
  proof (cases "cmp x y \<le> 0")
    case True
    then have "\<forall>z \<in> set ys. cmp x z \<le> 0" using Cons.prems trans by auto
    with True Cons.prems show ?thesis by simp
  next
    case False
    then have "cmp y x \<le> 0" using total [of x y] by simp
    with False Cons show ?thesis by (auto simp: set_Array_insert)
  qed
qed

lemma sorted_Array_sort:
  assumes "\<And>a b c. cmp a b \<le> 0 \<Longrightarrow> cmp b c \<le> 0 \<Longrightarrow> cmp a c \<le> 0"
    and "\<And>a b. cmp a b \<le> 0 \<or> cmp b a \<le> 0"
  shows "sorted_wrt (\<lambda>a b. cmp a b \<le> 0) (Array_sort cmp xs)"
proof (induction xs)
  case Nil
  then show ?case by (simp add: Array_sort_def)
next
  case (Cons x xs)
  show ?case unfolding Array_sort_Cons
    by (rule sorted_Array_insert [where cmp = cmp, OF assms Cons.IH])
qed

lemma filter_Array_insert:
  assumes "\<And>y. P x \<Longrightarrow> P y \<Longrightarrow> cmp x y \<le> 0"
  shows "filter P (Array_insert cmp x ys) = (if P x then x # filter P ys else filter P ys)"
  using assms by (induction ys) auto

lemma filter_Array_sort:
  assumes "\<And>x y. P x \<Longrightarrow> P y \<Longrightarrow> cmp x y \<le> 0"
  shows "filter P (Array_sort cmp xs) = filter P xs"
  by (induction xs) (simp_all add: Array_sort_Cons filter_Array_insert assms, simp add: Array_sort_def)

lemma Array_insert_cong:
  "\<forall>y \<in> set ys. cmp x y = cmp' x y \<Longrightarrow> Array_insert cmp x ys = Array_insert cmp' x ys"
  by (induction ys) auto

lemma Array_sort_cong:
  "\<forall>x \<in> set xs. \<forall>y \<in> set xs. cmp x y = cmp' x y \<Longrightarrow> Array_sort cmp xs = Array_sort cmp' xs"
proof (induction xs)
  case Nil
  then show ?case by (simp add: Array_sort_def)
next
  case (Cons x xs)
  then have "Array_sort cmp xs = Array_sort cmp' xs" by simp
  moreover have "\<forall>y \<in> set (Array_sort cmp' xs). cmp x y = cmp' x y"
    using Cons.prems by (simp add: set_Array_sort)
  ultimately show ?case by (simp add: Array_sort_Cons Array_insert_cong)
qed

lemma compareStats_le: "compareStats a b \<le> 0 \<longleftrightarrow> descOrder a b"
  by (auto simp: compareStats_def descOrder_def Let_def)

lemma sorted_sortedStats: "sorted_wrt descOrder (sortedStats allPRs)"
proof -
  have "sorted_wrt (\<lambda>a b. compareStats a b \<le> 0) (Array_sort compareStats xs)" for xs
    by (rule sorted_Array_sort) (auto simp: compareStats_le descOrder_def)
  then show ?thesis by (simp add: sortedStats_def compareStats_le [abs_def])
qed

lemma stable_sortedStats:
  "filter (\<lambda>s. requiredCount s = r \<and> totalCount s = t) (sortedStats allPRs)
     = filter (\<lambda>s. requiredCount s = r \<and> totalCount s = t) (Map_values (aggregateStats allPRs))"
  unfolding sortedStats_def
  by (rule filter_Array_sort) (simp add: compareStats_def)

lemma set_sortedStats: "set (sortedStats allPRs) = snd ` set (aggregateStats allPRs)"
  by (simp add: sortedStats_def set_Array_sort Map_values_def)


section \<open>Properties of the renderer\<close>

lemma digitChar_digits: "digitChar d \<in> set ''0123456789''"
proof -
  have "d mod 10 < length ''0123456789''" by simp
  then show ?thesis unfolding digitChar_def by (rule nth_mem)
qed

lemma showNat_digits: "set (showNat n) \<subseteq> set ''0123456789''"
proof (induction n rule: showNat.induct)
  case (1 n)
  show ?case
  proof (cases "n < 10")
    case True
    then show ?thesis using digitChar_digits [of n] by (subst showNat.simps) simp
  next
    case False
    then show ?thesis using 1 digitChar_digits [of "n mod 10"]
      by (subst showNat.simps) simp
  qed
qed

lemma title_chars:
  "c \<in> set (''Reviewer Statistics ('' @ showNat n @ '' Active PRs)'' @ newline)
     \<Longrightarrow> c \<noteq> CHR ''-'' \<and> c \<noteq> CHR ''q''"
  using showNat_digits [of n] by (auto simp: newline_def)

lemma header_has_q: "CHR ''q'' \<in> set (headerRow (headers ro) (widths ro fs))"
  by (simp add: headerRow_def headers_def widths_def padEnd_def)

lemma dashes_have_dash: "CHR ''-'' \<in> set (dashRow (widths ro fs))"
  by (simp add: dashRow_def widths_def)

lemma tableLines_empty:
  "filteredStats ro stats = [] \<Longrightarrow>
     tableLines random stats n ro
       = [''Reviewer Statistics ('' @ showNat n @ '' Active PRs)'' @ newline, ''No reviewers found.'']"
  by (simp add: tableLines_def Let_def)

lemma tableLines_rows:
  "filteredStats ro stats \<noteq> [] \<Longrightarrow>
     take (length (filteredStats ro stats)) (drop 3 (tableLines random stats n ro))
       = map (dataRow ro (widths ro (filteredStats ro stats))) (filteredStats ro stats)"
  by (simp add: tableLines_def Let_def split: option.splits)


lemma sorted_wrt_filter': "sorted_wrt P xs \<Longrightarrow> sorted_wrt P (filter Q xs)"
  by (induction xs) auto

lemma reviewerStats_data:
  "data (reviewerStats random ro allPRs)
     = Some \<lparr> reviewers = sortedStats allPRs, totalPRs = length (nonDraftPRs allPRs),
              markdown = generateMarkdownTable random (sortedStats allPRs)
                           (length (nonDraftPRs allPRs)) (ro \<noteq> Some False) \<rparr>
   \<and> success (reviewerStats random ro allPRs) \<and> error (reviewerStats random ro allPRs) = None"
  by (simp add: reviewerStats_def Let_def)

section \<open>Properties of the identity key\<close>

lemma of_char_lowerChar:
  "(of_char (lowerChar c) :: nat) = (if isUpperChar c then of_char c + 32 else of_char c)"
proof -
  have "(of_char c :: nat) < 256" by (rule nat_of_char_less_256)
  then show ?thesis
    by (auto simp: lowerChar_def isUpperChar_def Let_def)
qed

lemma lowerChar_not_upper: "\<not> isUpperChar (lowerChar c)"
  using of_char_lowerChar [of c] by (auto simp: isUpperChar_def Let_def split: if_splits)

lemma lowerChar_eq_iff:
  "lowerChar c = lowerChar d \<longleftrightarrow> c = d \<or> caseVariant c d \<or> caseVariant d c"
proof -
  have inj: "c = d \<longleftrightarrow> (of_char c :: nat) = of_char d" for c d :: char
    by simp
  have "lowerChar c = lowerChar d \<longleftrightarrow> (of_char (lowerChar c) :: nat) = of_char (lowerChar d)"
    by (rule inj)
  also have "\<dots> \<longleftrightarrow> c = d \<or> caseVariant c d \<or> caseVariant d c"
    unfolding of_char_lowerChar inj [of c d]
    by (auto simp: caseVariant_def isUpperChar_def Let_def)
  finally show ?thesis .
qed

lemma toLowerCase_eq_iff: "toLowerCase u = toLowerCase v \<longleftrightarrow> sameUpToCase u v"
  unfolding toLowerCase_def sameUpToCase_def
proof (induction u arbitrary: v)
  case Nil
  then show ?case by auto
next
  case (Cons a u)
  show ?case
  proof (cases v)
    case Nil
    then show ?thesis by simp
  next
    case (Cons b w)
    then show ?thesis using Cons.IH [of w] by (simp add: lowerChar_eq_iff)
  qed
qed

lemma lowerChar_idem: "lowerChar (lowerChar c) = lowerChar c"
  using lowerChar_not_upper [of c] by (simp add: lowerChar_def [of "lowerChar c"])

lemma lowerChar_blank: "lowerChar (CHR '' '') = CHR '' ''"
  by code_simp

lemma toLowerCase_idem: "toLowerCase (toLowerCase u) = toLowerCase u"
  by (simp add: toLowerCase_def lowerChar_idem)

lemma toLowerCase_blanks:
  "toLowerCase (replicate i (CHR '' '') @ u @ replicate j (CHR '' ''))
     = replicate i (CHR '' '') @ toLowerCase u @ replicate j (CHR '' '')"
  by (simp add: toLowerCase_def lowerChar_blank)

lemma reviewerEmail_empty_iff:
  "reviewerEmail rv = [] \<longleftrightarrow> uniqueName rv = None \<or> uniqueName rv = Some []"
  by (cases "uniqueName rv") (auto simp: reviewerEmail_def orString_def toLowerCase_def)

lemma reviewerEmail_Some: "uniqueName rv = Some u \<Longrightarrow> reviewerEmail rv = toLowerCase u"
  by (simp add: reviewerEmail_def orString_def toLowerCase_def)

lemma reviewerEmail_None: "uniqueName rv = None \<Longrightarrow> reviewerEmail rv = []"
  by (simp add: reviewerEmail_def orString_def)

lemma aggregateStats_distinct: "distinct (map fst (aggregateStats allPRs))"
  unfolding aggregateStats_assignments by (rule aggregateStats_distinct_fold) simp

lemma requiredAt_aggregateStats:
  "requiredAt (aggregateStats allPRs) k
     = length (filter (\<lambda>(pr, rv). reviewerEmail rv = k) (assignments allPRs))"
  unfolding aggregateStats_assignments requiredAt_fold by (simp add: requiredAt_def Map_get_def)

lemma processReviewer_skip:
  "\<not> truthy (isRequired rv) \<or> reviewerEmail rv = [] \<Longrightarrow> processReviewer pr m rv = m"
  by (auto simp: processReviewer_eq counted_def)

lemma counted_sameUpToCase:
  assumes "counted r"
  shows "reviewerEmail r = toLowerCase u
     \<longleftrightarrow> (case uniqueName r of None \<Rightarrow> False | Some u' \<Rightarrow> sameUpToCase u' u)"
proof (cases "uniqueName r")
  case None
  then have "reviewerEmail r = []" by (rule reviewerEmail_None)
  with assms show ?thesis by (simp add: counted_def)
next
  case (Some u')
  then show ?thesis by (simp add: reviewerEmail_Some toLowerCase_eq_iff)
qed

lemma requiredAt_sameUpToCase:
  "requiredAt (aggregateStats allPRs) (toLowerCase u)
     = length (filter (\<lambda>(pr, r). case uniqueName r of None \<Rightarrow> False
                                 | Some u' \<Rightarrow> sameUpToCase u' u) (assignments allPRs))"
proof -
  have "\<forall>(pr, r) \<in> set (assignments allPRs). counted r"
    by (auto simp: assignments_def)
  then have "filter (\<lambda>(pr, r). reviewerEmail r = toLowerCase u) (assignments allPRs)
      = filter (\<lambda>(pr, r). case uniqueName r of None \<Rightarrow> False
                                 | Some u' \<Rightarrow> sameUpToCase u' u) (assignments allPRs)"
    by (intro filter_cong refl) (auto simp: counted_sameUpToCase)
  then show ?thesis by (simp add: requiredAt_aggregateStats)
qed

section \<open>Properties of the badge classifier\<close>

lemma if_append:
  "(if c then bs @ x else bs @ y) = bs @ (if c then x else y)"
  "(if c then bs @ x else bs) = bs @ (if c then x else [])"
  "(if c then bs else bs @ y) = bs @ (if c then [] else y)"
  by simp_all

lemma badgeStep_append: "badgeStep avg badges r = badges @ badgeStep avg [] r"
  unfolding badgeStep_def by (simp only: if_append append_Nil)

lemma assignBadges_concat:
  "assignBadges stats = concat (map (badgeStep (avgRequired stats) []) stats)"
proof -
  have "foldl (badgeStep avg) bs xs = bs @ concat (map (badgeStep avg []) xs)" for avg bs xs
  proof (induction xs arbitrary: bs)
    case Nil
    then show ?case by simp
  next
    case (Cons x xs)
    have "foldl (badgeStep avg) bs (x # xs) = foldl (badgeStep avg) (badgeStep avg bs x) xs"
      by simp
    also have "\<dots> = badgeStep avg bs x @ concat (map (badgeStep avg []) xs)"
      by (rule Cons.IH)
    also have "\<dots> = bs @ concat (map (badgeStep avg []) (x # xs))"
      by (subst badgeStep_append) simp
    finally show ?case .
  qed
  from this [of "avgRequired stats" "[]" stats] show ?thesis by (simp add: assignBadges_def)
qed

lemma badgeStep_firstMatch:
  "map (\<lambda>b. (reviewer b, title b)) (badgeStep avg [] r)
     = (if requiredCount r = 0 then []
        else case firstMatch (badgeRules avg) r of None \<Rightarrow> [] | Some t \<Rightarrow> [(r, t)])"
  unfolding badgeStep_def firstMatch_def badgeRules_def mkBadge_def
  by (simp only: find.simps snd_conv fst_conv append_Nil
      if_distrib [where f = "map g" for g] if_distrib [where f = "map_option g" for g]
      if_distrib [where f = "case_option a g" for a g]
      list.map ReviewerBadge.simps option.map option.case)

lemma badgeStep_length: "length (badgeStep avg [] r) \<le> 1"
proof -
  have "length (map (\<lambda>b. (reviewer b, title b)) (badgeStep avg [] r)) \<le> 1"
    unfolding badgeStep_firstMatch by (simp split: option.splits)
  then show ?thesis by simp
qed

lemma badgeStep_reviewer:
  assumes "b \<in> set (badgeStep avg [] r)"
  shows "reviewer b = r \<and> requiredCount r > 0"
proof -
  have "(reviewer b, title b) \<in> set (map (\<lambda>b. (reviewer b, title b)) (badgeStep avg [] r))"
    using assms by (simp only: set_map) (rule imageI)
  then show ?thesis
    unfolding badgeStep_firstMatch by (auto split: if_splits option.splits)
qed


lemma assignBadges_classify:
  "map (\<lambda>b. (reviewer b, title b)) (assignBadges stats) = classify_badges stats"
  unfolding assignBadges_concat classify_badges_def map_concat map_map comp_def
    badgeStep_firstMatch ..

lemma filter_concat_le:
  assumes "\<And>x. x \<in> set xs \<Longrightarrow> length (filter P (f x)) \<le> (if Q x then 1 else 0)"
  shows "length (filter P (concat (map f xs))) \<le> length (filter Q xs)"
  using assms
proof (induction xs)
  case Nil
  then show ?case by simp
next
  case (Cons x xs)
  have "length (filter P (f x)) \<le> (if Q x then 1 else 0)" using Cons.prems by simp
  moreover have "length (filter P (concat (map f xs))) \<le> length (filter Q xs)"
    using Cons by simp
  ultimately show ?case by auto
qed

lemma assignBadges_at_most_one:
  "length (filter (\<lambda>b. reviewer b = r) (assignBadges stats)) \<le> length (filter (\<lambda>x. x = r) stats)"
  unfolding assignBadges_concat
proof (rule filter_concat_le)
  fix x
  have "length (filter (\<lambda>b. reviewer b = r) (badgeStep (avgRequired stats) [] x))
      \<le> length (badgeStep (avgRequired stats) [] x)"
    by (rule length_filter_le)
  also have "\<dots> \<le> 1" by (rule badgeStep_length)
  finally have le1: "length (filter (\<lambda>b. reviewer b = r) (badgeStep (avgRequired stats) [] x)) \<le> 1" .
  have "filter (\<lambda>b. reviewer b = r) (badgeStep (avgRequired stats) [] x) = []" if "x \<noteq> r"
    using that badgeStep_reviewer [of _ "avgRequired stats" x] by (auto simp: filter_empty_conv)
  with le1 show "length (filter (\<lambda>b. reviewer b = r) (badgeStep (avgRequired stats) [] x))
      \<le> (if x = r then 1 else 0)"
    by auto
qed

lemma flawless_before_speed_demon:
  assumes inv: "approvedCount r + waitingForAuthorCount r + rejectedCount r + pendingCount r
      = requiredCount r"
    and fl: "requiredCount r \<ge> 2" "completionRate r = 1"
    and sd: "isMedVolume avg r"
  shows "firstMatch (badgeRules avg) r = Some ''Flawless''"
proof -
  have "of_nat (approvedCount r) = (of_nat (requiredCount r) :: rat)"
    using fl by (simp add: completionRate_def)
  then have "approvedCount r = requiredCount r" by simp
  then have "pendingCount r = 0" using inv by simp
  moreover have "\<not> isHighVolume avg r" "\<not> isLowVolume avg r" using sd by (simp_all add: isMedVolume_def)
  ultimately show ?thesis using fl
    by (simp add: firstMatch_def badgeRules_def)
qed


lemma classify_badges_set:
  "(s, t) \<in> set (classify_badges stats) \<longleftrightarrow>
     s \<in> set stats \<and> requiredCount s \<noteq> 0 \<and> firstMatch (badgeRules (avgRequired stats)) s = Some t"
  by (auto simp: classify_badges_def split: if_splits option.splits)

lemma assignBadges_reviewer:
  "b \<in> set (assignBadges stats) \<Longrightarrow> reviewer b \<in> set stats \<and> requiredCount (reviewer b) > 0"
  unfolding assignBadges_concat using badgeStep_reviewer by auto

section \<open>The script against the tool\<close>

lemma Hashtable_set_map_of: "map_of (Hashtable_set m k v) = (map_of m)(k \<mapsto> v)"
  by (induction m) auto

lemma Hashtable_set_absent: "k \<notin> fst ` set m \<Longrightarrow> Hashtable_set m k v = m @ [(k, v)]"
  by (induction m) auto

lemma Hashtable_set_append_same:
  "k \<notin> fst ` set m \<Longrightarrow> Hashtable_set (m @ [(k, v)]) k w = m @ [(k, w)]"
  by (induction m) auto

lemma scriptProcessReviewer_eq:
  assumes "uniqueName rv \<noteq> None"
  shows "snd (scriptProcessReviewer (ev, m) rv) = (if counted rv then scriptUpsert rv m else m)"
proof -
  obtain u where u: "uniqueName rv = Some u" using assms by auto
  then have key: "reviewerEmail rv = toLowerCase u"
    by (simp add: reviewerEmail_def orString_def toLowerCase_def)
  show ?thesis
  proof (cases "map_of m (toLowerCase u)")
    case None
    then have notin: "toLowerCase u \<notin> fst ` set m" by (simp add: map_of_eq_None_iff)
    have "map_of (Hashtable_set m (toLowerCase u) v) (toLowerCase u) = Some v" for v
      by (simp add: Hashtable_set_map_of)
    moreover have "Hashtable_set (Hashtable_set m (toLowerCase u) v) (toLowerCase u) w
        = m @ [(toLowerCase u, w)]" for v w
      by (simp add: Hashtable_set_absent [OF notin] Hashtable_set_append_same [OF notin])
    ultimately show ?thesis using None u
      by (simp add: scriptProcessReviewer_def counted_def scriptUpsert_def Let_def key
          newScriptStat_def scriptRecord_def)
  next
    case (Some t)
    then show ?thesis using u
      by (simp add: scriptProcessReviewer_def counted_def scriptUpsert_def Let_def key
          scriptRecord_def)
  qed
qed

lemma agree_Nil: "agree rel [] []"
  by (simp add: agree_def)

lemma agree_map_of_None: "agree rel m sm \<Longrightarrow> map_of m k = None \<longleftrightarrow> map_of sm k = None"
  unfolding agree_def by (induction m sm rule: list_all2_induct) auto

lemma agree_map_of_Some:
  "agree rel m sm \<Longrightarrow> map_of m k = Some s \<Longrightarrow> map_of sm k = Some t \<Longrightarrow> rel s t"
  unfolding agree_def by (induction m sm rule: list_all2_induct) (auto split: if_splits)

lemma agree_set:
  "agree rel m sm \<Longrightarrow> rel s t \<Longrightarrow> agree rel (Map_set m k s) (Hashtable_set sm k t)"
  unfolding agree_def by (induction m sm rule: list_all2_induct) auto

lemma agree_append:
  "agree rel m sm \<Longrightarrow> rel s t \<Longrightarrow> agree rel (m @ [(k, s)]) (sm @ [(k, t)])"
  unfolding agree_def by (simp add: list_all2_appendI)

lemma agree_upsert:
  assumes ag: "agree rel m sm"
    and step: "\<And>s t. rel s t \<or> (s = newStat rv \<and> t = newScriptStat rv)
        \<Longrightarrow> rel (recordAssignment pr rv s) (scriptRecord rv t)"
  shows "agree rel (upsert pr rv m) (scriptUpsert rv sm)"
proof (cases "map_of m (reviewerEmail rv)")
  case None
  then have "map_of sm (reviewerEmail rv) = None" using agree_map_of_None [OF ag] by simp
  with None show ?thesis
    by (simp add: upsert_def scriptUpsert_def agree_append [OF ag] step)
next
  case (Some s)
  then obtain t where t: "map_of sm (reviewerEmail rv) = Some t"
    using agree_map_of_None [OF ag, of "reviewerEmail rv"] by auto
  have "rel s t" using ag Some t by (rule agree_map_of_Some)
  then have "rel (recordAssignment pr rv s) (scriptRecord rv t)" using step by blast
  with Some t show ?thesis by (simp add: upsert_def scriptUpsert_def agree_set [OF ag])
qed

lemma agree_fold_reviewers:
  assumes step: "\<And>rv s t. ok rv \<Longrightarrow> rel s t \<or> (s = newStat rv \<and> t = newScriptStat rv)
        \<Longrightarrow> rel (recordAssignment pr rv s) (scriptRecord rv t)"
  shows "\<forall>rv \<in> set rvs. uniqueName rv \<noteq> None \<and> (counted rv \<longrightarrow> ok rv) \<Longrightarrow> agree rel m sm \<Longrightarrow>
     agree rel (foldl (processReviewer pr) m rvs) (snd (foldl scriptProcessReviewer (ev, sm) rvs))"
proof (induction rvs arbitrary: m ev sm)
  case Nil
  then show ?case by simp
next
  case (Cons rv rvs)
  obtain ev1 sm1 where st: "scriptProcessReviewer (ev, sm) rv = (ev1, sm1)"
    by (cases "scriptProcessReviewer (ev, sm) rv")
  have un: "uniqueName rv \<noteq> None" using Cons.prems(1) by simp
  have sm1: "sm1 = (if counted rv then scriptUpsert rv sm else sm)"
    using scriptProcessReviewer_eq [OF un, of ev sm] st by simp
  have "agree rel (processReviewer pr m rv) sm1"
  proof (cases "counted rv")
    case True
    then have "ok rv" using Cons.prems(1) by simp
    then have "agree rel (upsert pr rv m) (scriptUpsert rv sm)"
      using Cons.prems(2) step by (intro agree_upsert) auto
    with True show ?thesis by (simp add: sm1 processReviewer_eq)
  next
    case False
    with Cons.prems(2) show ?thesis by (simp add: sm1 processReviewer_eq)
  qed
  moreover have "\<forall>rv \<in> set rvs. uniqueName rv \<noteq> None \<and> (counted rv \<longrightarrow> ok rv)"
    using Cons.prems(1) by simp
  ultimately have "agree rel (foldl (processReviewer pr) (processReviewer pr m rv) rvs)
      (snd (foldl scriptProcessReviewer (ev1, sm1) rvs))"
    by (intro Cons.IH)
  then show ?case by (simp add: st)
qed

lemma agree_fold_prs:
  assumes step: "\<And>pr rv s t. ok rv \<Longrightarrow> rel s t \<or> (s = newStat rv \<and> t = newScriptStat rv)
        \<Longrightarrow> rel (recordAssignment pr rv s) (scriptRecord rv t)"
  shows "\<forall>pr \<in> set ps. \<forall>rv \<in> set (reviewersOf pr). uniqueName rv \<noteq> None \<and> (counted rv \<longrightarrow> ok rv)
     \<Longrightarrow> agree rel m sm \<Longrightarrow>
     agree rel (foldl (\<lambda>statsMap pr. foldl (processReviewer pr) statsMap (reviewersOf pr)) m ps)
       (snd (foldl (\<lambda>st pr. foldl scriptProcessReviewer st (reviewersOf pr)) (ev, sm) ps))"
proof (induction ps arbitrary: m ev sm)
  case Nil
  then show ?case by simp
next
  case (Cons p ps)
  obtain ev1 sm1 where st: "foldl scriptProcessReviewer (ev, sm) (reviewersOf p) = (ev1, sm1)"
    by (cases "foldl scriptProcessReviewer (ev, sm) (reviewersOf p)")
  have "agree rel (foldl (processReviewer p) m (reviewersOf p))
      (snd (foldl scriptProcessReviewer (ev, sm) (reviewersOf p)))"
    using Cons.prems by (intro agree_fold_reviewers [where ok = ok] step) auto
  then have "agree rel (foldl (processReviewer p) m (reviewersOf p)) sm1" by (simp add: st)
  moreover have "\<forall>pr \<in> set ps. \<forall>rv \<in> set (reviewersOf pr).
      uniqueName rv \<noteq> None \<and> (counted rv \<longrightarrow> ok rv)"
    using Cons.prems(1) by simp
  ultimately have "agree rel
      (foldl (\<lambda>statsMap pr. foldl (processReviewer pr) statsMap (reviewersOf pr))
         (foldl (processReviewer p) m (reviewersOf p)) ps)
      (snd (foldl (\<lambda>st pr. foldl scriptProcessReviewer st (reviewersOf pr)) (ev1, sm1) ps))"
    by (intro Cons.IH)
  then show ?case by (simp add: st)
qed

lemma agree_aggregate:
  assumes "\<And>pr rv s t. ok rv \<Longrightarrow> rel s t \<or> (s = newStat rv \<and> t = newScriptStat rv)
        \<Longrightarrow> rel (recordAssignment pr rv s) (scriptRecord rv t)"
    and "\<forall>pr \<in> set (nonDraftPRs allPRs). \<forall>rv \<in> set (reviewersOf pr).
           uniqueName rv \<noteq> None \<and> (counted rv \<longrightarrow> ok rv)"
  shows "agree rel (aggregateStats allPRs) (scriptAggregate allPRs)"
  unfolding aggregateStats_def scriptAggregate_def
  using assms(2) by (intro agree_fold_prs [where ok = ok] assms(1) agree_Nil) auto

lemma agree_map:
  "agree rel m sm \<Longrightarrow> (\<And>s t. rel s t \<Longrightarrow> f s = g t)
     \<Longrightarrow> map (\<lambda>(k, s). (k, f s)) m = map (\<lambda>(k, t). (k, g t)) sm"
  unfolding agree_def by (induction m sm rule: list_all2_induct) auto

lemma recordAssignment_toolCounts:
  "toolCounts (recordAssignment pr rv s) =
     (let (r, a, b, u) = toolCounts s; v = orZero (vote rv)
      in if v \<ge> 10 then (r + 1, a + 1, b, u)
         else if v = -5 \<or> v \<le> -10 then (r + 1, a, b + 1, u)
         else (r + 1, a, b, u + 1))"
  by (simp add: toolCounts_def recordAssignment_def countVote_def Let_def)

lemma scriptRecord_scriptCounts:
  "scriptCounts (scriptRecord rv t) =
     (let (r, a, b, u) = scriptCounts t; v = orZero (vote rv)
      in if v \<ge> 5 then (r + 1, a + 1, b, u)
         else if v = -5 \<or> v \<le> -10 then (r + 1, a, b + 1, u)
         else (r + 1, a, b, u + 1))"
  by (auto simp: scriptCounts_def scriptRecord_def scriptCountVote_def orZero_def Let_def
      split: option.splits)

lemma agree_set_left:
  "agree rel m sm \<Longrightarrow> (k, s) \<in> set m \<Longrightarrow> \<exists>t. (k, t) \<in> set sm \<and> rel s t"
  unfolding agree_def by (induction m sm rule: list_all2_induct) auto

lemma agree_keys: "agree rel m sm \<Longrightarrow> map fst m = map fst sm"
  unfolding agree_def by (induction m sm rule: list_all2_induct) auto

lemma avgRequired_sum:
  "avgRequired stats =
     (if stats = [] then 0
      else of_nat (sum_list (map requiredCount stats)) / of_nat (length stats))"
proof -
  have "foldl (\<lambda>sum r. sum + requiredCount r) a xs = a + sum_list (map requiredCount xs)"
    for a :: nat and xs :: "ReviewerStat list"
    by (induction xs arbitrary: a) simp_all
  from this [of 0 stats] show ?thesis by (simp add: avgRequired_def)
qed

lemma sum_list_Array_sort:
  fixes f :: "'a \<Rightarrow> nat"
  shows "sum_list (map f (Array_sort cmp xs)) = sum_list (map f xs)"
proof -
  have "sum_list (map f (Array_sort cmp xs)) = sum_mset (mset (map f (Array_sort cmp xs)))"
    by (simp only: sum_mset_sum_list)
  also have "\<dots> = sum_mset (mset (map f xs))" by (simp add: mset_Array_sort)
  also have "\<dots> = sum_list (map f xs)" by (simp only: sum_mset_sum_list)
  finally show ?thesis .
qed

lemma filteredStats_sortedStats: "filteredStats ro (sortedStats allPRs) = sortedStats allPRs"
proof (cases ro)
  case True
  have "\<forall>s \<in> set (sortedStats allPRs). requiredCount s > 0"
    using aggregateStats_required_only [of allPRs] by (auto simp: set_sortedStats)
  then have "filter (\<lambda>r. requiredCount r > 0) (sortedStats allPRs) = sortedStats allPRs"
    by (intro filter_True) auto
  with True show ?thesis by (simp add: filteredStats_def)
next
  case False
  then show ?thesis by (simp add: filteredStats_def)
qed

lemma averages_agree:
  assumes "agree (\<lambda>s t. requiredCount s = Required t) (aggregateStats allPRs) (scriptAggregate allPRs)"
  shows "scriptAvgRequired (scriptSortedStats allPRs) = avgRequired (sortedStats allPRs)"
proof -
  have "map (\<lambda>(k, s). (k, requiredCount s)) (aggregateStats allPRs)
      = map (\<lambda>(k, t). (k, Required t)) (scriptAggregate allPRs)"
    using assms by (rule agree_map)
  then have "map snd (map (\<lambda>(k, s). (k, requiredCount s)) (aggregateStats allPRs))
      = map snd (map (\<lambda>(k, t). (k, Required t)) (scriptAggregate allPRs))"
    by simp
  then have eq: "map requiredCount (map snd (aggregateStats allPRs))
      = map Required (map snd (scriptAggregate allPRs))"
    by (simp add: case_prod_beta comp_def)
  have len: "length (aggregateStats allPRs) = length (scriptAggregate allPRs)"
    using eq by (metis length_map)
  have sums: "sum_list (map requiredCount (map snd (aggregateStats allPRs)))
      = sum_list (map Required (map snd (scriptAggregate allPRs)))"
    using eq by simp
  have l1: "length (sortedStats allPRs) = length (aggregateStats allPRs)"
    by (simp add: sortedStats_def Map_values_def length_Array_sort)
  have l2: "length (scriptSortedStats allPRs) = length (scriptAggregate allPRs)"
    by (simp add: scriptSortedStats_def length_Array_sort)
  have s1: "sum_list (map requiredCount (sortedStats allPRs))
      = sum_list (map requiredCount (map snd (aggregateStats allPRs)))"
    unfolding sortedStats_def Map_values_def by (rule sum_list_Array_sort)
  have s2: "sum_list (map Required (scriptSortedStats allPRs))
      = sum_list (map Required (map snd (scriptAggregate allPRs)))"
    unfolding scriptSortedStats_def by (rule sum_list_Array_sort)
  have "scriptAvgRequired (scriptSortedStats allPRs)
      = (if length (scriptAggregate allPRs) = 0 then 0
         else of_nat (sum_list (map Required (map snd (scriptAggregate allPRs))))
              / of_nat (length (scriptAggregate allPRs)))"
    unfolding scriptAvgRequired_def s2 l2 by simp
  moreover have "avgRequired (sortedStats allPRs)
      = (if length (aggregateStats allPRs) = 0 then 0
         else of_nat (sum_list (map requiredCount (map snd (aggregateStats allPRs))))
              / of_nat (length (aggregateStats allPRs)))"
    unfolding avgRequired_sum s1 l1 length_0_conv [symmetric] l1 ..
  ultimately show ?thesis unfolding sums len by simp
qed

lemma firstMatch_cases:
  assumes "firstMatch (badgeRules avg) s = Some ttl"
  shows "(ttl = ''Super Reviewer'' \<and> isHighVolume avg s \<and> completionRate s \<ge> 0.8)
     \<or> (ttl = ''Needs Backup'' \<and> isHighVolume avg s \<and> unreviewedRate s \<ge> 0.5)
     \<or> ttl = ''Needs Coffee''
     \<or> (ttl = ''Benchwarmer'' \<and> requiredCount s \<le> 1)
     \<or> (ttl = ''Flawless'' \<and> requiredCount s \<ge> 2 \<and> completionRate s = 1)
     \<or> (ttl = ''Gatekeeper'' \<and> rejectedCount s \<ge> 1)
     \<or> (ttl = ''Waiting Room'' \<and> waitingForAuthorCount s \<ge> 2)
     \<or> (ttl = ''Speed Demon'' \<and> isMedVolume avg s \<and> completionRate s \<ge> 0.7)"
  using assms unfolding firstMatch_def badgeRules_def
  by (simp only: find.simps snd_conv fst_conv option.map
        if_distrib [where f = "map_option g" for g] split: if_splits)
    (simp_all only: option.inject option.distinct, simp_all)

lemma scriptBadges_length: "length scriptBadges = 8"
  by (simp add: scriptBadges_def)

lemma scriptBadges_titles:
  "map (\<lambda>rule. fst (snd rule)) scriptBadges
     = [''Super Reviewer'', ''Needs Backup'', ''Needs Coffee'', ''Benchwarmer'', ''Flawless'',
        ''Gatekeeper'', ''Waiting Room'', ''Speed Demon'']"
  by (simp add: scriptBadges_def)

lemma scriptBadges_conditions:
  "snd (snd (scriptBadges ! 0)) t avg \<longleftrightarrow>
     of_nat (Required t) \<ge> avg * 1.5 \<and> Required t > 0
       \<and> (of_nat (Approved t) / of_nat (Required t) :: rat) \<ge> 0.8"
  "snd (snd (scriptBadges ! Suc 0)) t avg \<longleftrightarrow>
     of_nat (Required t) \<ge> avg * 1.5 \<and> Required t > 0
       \<and> (of_nat (Unreviewed t) / of_nat (Required t) :: rat) \<ge> 0.5"
  "snd (snd (scriptBadges ! 3)) t avg \<longleftrightarrow> Required t \<le> 1 \<and> Required t > 0"
  "snd (snd (scriptBadges ! 4)) t avg \<longleftrightarrow> Required t \<ge> 2 \<and> Approved t = Required t"
  "snd (snd (scriptBadges ! 5)) t avg \<longleftrightarrow> Blocked t \<ge> 1"
  "snd (snd (scriptBadges ! 6)) t avg \<longleftrightarrow> Blocked t \<ge> 2"
  "snd (snd (scriptBadges ! 7)) t avg \<longleftrightarrow>
     of_nat (Required t) > avg * 0.5 \<and> of_nat (Required t) < avg * 1.5 \<and> Required t > 0
       \<and> (of_nat (Approved t) / of_nat (Required t) :: rat) \<ge> 0.7"
  unfolding scriptBadges_def by (simp_all only: nth_Cons_0 nth_Cons_Suc nth_Cons_numeral snd_conv) simp_all

lemma scriptBadges_titles_nth:
  "fst (snd (scriptBadges ! 0)) = ''Super Reviewer''"
  "fst (snd (scriptBadges ! Suc 0)) = ''Needs Backup''"
  "fst (snd (scriptBadges ! 3)) = ''Benchwarmer''"
  "fst (snd (scriptBadges ! 4)) = ''Flawless''"
  "fst (snd (scriptBadges ! 5)) = ''Gatekeeper''"
  "fst (snd (scriptBadges ! 6)) = ''Waiting Room''"
  "fst (snd (scriptBadges ! 7)) = ''Speed Demon''"
  unfolding scriptBadges_def by (simp_all only: nth_Cons_0 nth_Cons_Suc nth_Cons_numeral snd_conv fst_conv) simp_all

lemma scriptBadges_nth_mem: "i < 8 \<Longrightarrow> scriptBadges ! i \<in> set scriptBadges"
  by (simp add: scriptBadges_length)

lemma script_rule_holds:
  assumes fm: "firstMatch (badgeRules avg) s = Some ttl"
    and nc: "ttl \<noteq> ''Needs Coffee''"
    and pos: "requiredCount s > 0"
    and cnt: "toolCounts s = scriptCounts t"
  shows "\<exists>rule \<in> set scriptBadges. fst (snd rule) = ttl \<and> snd (snd rule) t avg"
proof -
  have r: "Required t = requiredCount s" and a: "Approved t = approvedCount s"
    and b: "Blocked t = waitingForAuthorCount s + rejectedCount s"
    and u: "Unreviewed t = pendingCount s"
    using cnt by (simp_all add: toolCounts_def scriptCounts_def)
  have rpos: "(0::rat) < of_nat (requiredCount s)" using pos by simp
  have found: "\<exists>rule \<in> set scriptBadges. fst (snd rule) = ttl \<and> snd (snd rule) t avg"
    if "i < 8" "fst (snd (scriptBadges ! i)) = ttl" "snd (snd (scriptBadges ! i)) t avg" for i
    using that scriptBadges_nth_mem [of i] by blast
  from firstMatch_cases [OF fm] show ?thesis
  proof (elim disjE conjE)
    assume "ttl = ''Super Reviewer''" "isHighVolume avg s" "0.8 \<le> completionRate s"
    then show ?thesis using pos
      by (intro found [of 0])
        (simp_all add: scriptBadges_titles_nth scriptBadges_conditions r a isHighVolume_def
          completionRate_def)
  next
    assume "ttl = ''Needs Backup''" "isHighVolume avg s" "0.5 \<le> unreviewedRate s"
    then show ?thesis using pos
      by (intro found [of 1])
        (simp_all add: scriptBadges_titles_nth scriptBadges_conditions r u isHighVolume_def
          unreviewedRate_def)
  next
    assume "ttl = ''Needs Coffee''"
    with nc show ?thesis by simp
  next
    assume "ttl = ''Benchwarmer''" "requiredCount s \<le> 1"
    then show ?thesis using pos
      by (intro found [of 3]) (simp_all add: scriptBadges_titles_nth scriptBadges_conditions r)
  next
    assume fl: "ttl = ''Flawless''" "2 \<le> requiredCount s" "completionRate s = 1"
    then have "of_nat (approvedCount s) = (of_nat (requiredCount s) :: rat)"
      using rpos by (simp add: completionRate_def)
    then have "approvedCount s = requiredCount s" by simp
    with fl show ?thesis
      by (intro found [of 4]) (simp_all add: scriptBadges_titles_nth scriptBadges_conditions r a)
  next
    assume "ttl = ''Gatekeeper''" "1 \<le> rejectedCount s"
    then show ?thesis
      by (intro found [of 5]) (simp_all add: scriptBadges_titles_nth scriptBadges_conditions b)
  next
    assume "ttl = ''Waiting Room''" "2 \<le> waitingForAuthorCount s"
    then show ?thesis
      by (intro found [of 6]) (simp_all add: scriptBadges_titles_nth scriptBadges_conditions b)
  next
    assume sd: "ttl = ''Speed Demon''" "isMedVolume avg s" "0.7 \<le> completionRate s"
    then have "of_nat (requiredCount s) < avg * 1.5" "of_nat (requiredCount s) > avg * 0.5"
      by (auto simp: isMedVolume_def isHighVolume_def isLowVolume_def max_def split: if_splits)
    with sd show ?thesis using pos
      by (intro found [of 7])
        (simp_all add: scriptBadges_titles_nth scriptBadges_conditions r a completionRate_def)
  qed
qed

lemma applicableBadges_set:
  "((e, ttl), t) \<in> set (applicableBadges allPRs) \<longleftrightarrow>
     t \<in> set (scriptSortedStats allPRs)
     \<and> (\<exists>rule \<in> set scriptBadges. fst rule = e \<and> fst (snd rule) = ttl
           \<and> snd (snd rule) t (scriptAvgRequired (scriptSortedStats allPRs)))"
  by (auto simp: applicableBadges_def Let_def)

lemma benchwarmer_tests_agree:
  assumes "requiredCount s = Required t" "requiredCount s \<noteq> 0"
  shows "fst (snd (scriptBadges ! 3)) = ''Benchwarmer''
     \<and> (snd (snd (scriptBadges ! 3)) t avg \<longleftrightarrow> isLowVolume avg s \<and> requiredCount s \<le> 1)"
proof -
  have "isLowVolume avg s" if "requiredCount s \<le> 1"
  proof -
    have "(of_nat (requiredCount s) :: rat) \<le> 1" using that by simp
    then show ?thesis by (simp add: isLowVolume_def)
  qed
  then show ?thesis using assms by (auto simp: scriptBadges_def)
qed

lemma agree_mono:
  "agree rel m sm \<Longrightarrow> (\<And>s t. rel s t \<Longrightarrow> rel' s t) \<Longrightarrow> agree rel' m sm"
  unfolding agree_def by (erule list_all2_mono) auto

lemma agree_required_blocked:
  assumes "\<forall>pr \<in> set allPRs. \<forall>rv \<in> set (reviewersOf pr). uniqueName rv \<noteq> None"
  shows "agree (\<lambda>s t. requiredCount s = Required t
            \<and> waitingForAuthorCount s + rejectedCount s = Blocked t
            \<and> approvedCount s + pendingCount s = Approved t + Unreviewed t)
          (aggregateStats allPRs) (scriptAggregate allPRs)"
proof (rule agree_aggregate [where ok = "\<lambda>rv. True"])
  show "\<forall>pr \<in> set (nonDraftPRs allPRs). \<forall>rv \<in> set (reviewersOf pr).
      uniqueName rv \<noteq> None \<and> (counted rv \<longrightarrow> True)"
    using assms by (auto simp: nonDraftPRs_def)
next
  fix pr rv s t
  assume "requiredCount s = Required t
      \<and> waitingForAuthorCount s + rejectedCount s = Blocked t
      \<and> approvedCount s + pendingCount s = Approved t + Unreviewed t
    \<or> s = newStat rv \<and> t = newScriptStat rv"
  then have "toolCounts s = (Required t, approvedCount s, Blocked t, pendingCount s)
      \<and> approvedCount s + pendingCount s = Approved t + Unreviewed t"
    by (auto simp: toolCounts_def newStat_def newScriptStat_def)
  then have "fst (toolCounts (recordAssignment pr rv s)) = fst (scriptCounts (scriptRecord rv t))
      \<and> fst (snd (snd (toolCounts (recordAssignment pr rv s))))
          = fst (snd (snd (scriptCounts (scriptRecord rv t))))
      \<and> fst (snd (toolCounts (recordAssignment pr rv s)))
          + snd (snd (snd (toolCounts (recordAssignment pr rv s))))
          = fst (snd (scriptCounts (scriptRecord rv t)))
          + snd (snd (snd (scriptCounts (scriptRecord rv t))))"
    unfolding recordAssignment_toolCounts scriptRecord_scriptCounts
    by (auto simp: Let_def scriptCounts_def)
  then show "requiredCount (recordAssignment pr rv s) = Required (scriptRecord rv t)
      \<and> waitingForAuthorCount (recordAssignment pr rv s) + rejectedCount (recordAssignment pr rv s)
          = Blocked (scriptRecord rv t)
      \<and> approvedCount (recordAssignment pr rv s) + pendingCount (recordAssignment pr rv s)
          = Approved (scriptRecord rv t) + Unreviewed (scriptRecord rv t)"
    by (simp add: toolCounts_def scriptCounts_def)
qed

lemma agree_counts:
  assumes "\<forall>pr \<in> set allPRs. \<forall>rv \<in> set (reviewersOf pr). uniqueName rv \<noteq> None"
    and "\<forall>(pr, rv) \<in> set (assignments allPRs). voteAgreed rv"
  shows "agree (\<lambda>s t. toolCounts s = scriptCounts t) (aggregateStats allPRs) (scriptAggregate allPRs)"
proof (rule agree_aggregate [where ok = voteAgreed])
  show "\<forall>pr \<in> set (nonDraftPRs allPRs). \<forall>rv \<in> set (reviewersOf pr).
      uniqueName rv \<noteq> None \<and> (counted rv \<longrightarrow> voteAgreed rv)"
    using assms by (auto simp: assignments_set nonDraftPRs_def counted_def)
next
  fix pr rv s t
  assume ok: "voteAgreed rv"
    and "toolCounts s = scriptCounts t \<or> s = newStat rv \<and> t = newScriptStat rv"
  then have "toolCounts s = scriptCounts t"
    by (auto simp: toolCounts_def scriptCounts_def newStat_def newScriptStat_def)
  then show "toolCounts (recordAssignment pr rv s) = scriptCounts (scriptRecord rv t)"
    using ok unfolding recordAssignment_toolCounts scriptRecord_scriptCounts
    by (auto simp: Let_def voteAgreed_def)
qed

lemma tool_badge_in_script:
  assumes ag: "agree (\<lambda>s t. toolCounts s = scriptCounts t) (aggregateStats allPRs) (scriptAggregate allPRs)"
    and b: "b \<in> set (assignBadges (filteredStats ro (sortedStats allPRs)))"
    and nc: "title b \<noteq> ''Needs Coffee''"
  shows "\<exists>k e t. Map_get (aggregateStats allPRs) k = Some (reviewer b)
           \<and> map_of (scriptAggregate allPRs) k = Some t
           \<and> ((e, title b), t) \<in> set (applicableBadges allPRs)"
proof -
  let ?fs = "sortedStats allPRs"
  have b': "b \<in> set (assignBadges ?fs)" using b by (simp only: filteredStats_sortedStats)
  then have mem: "reviewer b \<in> set ?fs" and pos: "requiredCount (reviewer b) > 0"
    using assignBadges_reviewer [of b ?fs] by simp_all
  have "(reviewer b, title b) \<in> set (map (\<lambda>b. (reviewer b, title b)) (assignBadges ?fs))"
    using b' by (simp only: set_map) (rule imageI)
  then have fm: "firstMatch (badgeRules (avgRequired ?fs)) (reviewer b) = Some (title b)"
    unfolding assignBadges_classify classify_badges_set by simp
  obtain k where k: "(k, reviewer b) \<in> set (aggregateStats allPRs)"
    using mem by (auto simp: set_sortedStats)
  obtain t where t: "(k, t) \<in> set (scriptAggregate allPRs)"
    and cnt: "toolCounts (reviewer b) = scriptCounts t"
    using agree_set_left [OF ag k] by blast
  have d1: "distinct (map fst (aggregateStats allPRs))" by (rule aggregateStats_distinct)
  then have d2: "distinct (map fst (scriptAggregate allPRs))"
    using agree_keys [OF ag] by simp
  have l1: "Map_get (aggregateStats allPRs) k = Some (reviewer b)"
    using d1 k by (simp add: Map_get_def)
  have l2: "map_of (scriptAggregate allPRs) k = Some t" using d2 t by simp
  have "agree (\<lambda>s t. requiredCount s = Required t) (aggregateStats allPRs) (scriptAggregate allPRs)"
    using ag by (rule agree_mono) (simp add: toolCounts_def scriptCounts_def)
  then have avg: "scriptAvgRequired (scriptSortedStats allPRs) = avgRequired ?fs"
    by (rule averages_agree)
  have tin: "t \<in> set (scriptSortedStats allPRs)"
    using t by (force simp: scriptSortedStats_def set_Array_sort)
  obtain rule where "rule \<in> set scriptBadges" "fst (snd rule) = title b"
    "snd (snd rule) t (avgRequired ?fs)"
    using script_rule_holds [OF fm nc pos cnt] by blast
  then have "((fst rule, title b), t) \<in> set (applicableBadges allPRs)"
    unfolding applicableBadges_set avg using tin by blast
  with l1 l2 show ?thesis by blast
qed

section \<open>The claims\<close>

lemma example_aggregate:
  "map (\<lambda>(k, s). (k, requiredCount s, optionalCount s, totalCount s,
          approvedCount s, waitingForAuthorCount s, rejectedCount s, pendingCount s))
     (aggregateStats examplePRs)
   = [(''ann@x.io'', 2, 0, 2, 1, 1, 0, 0), (''bob@x.io'', 2, 0, 2, 0, 0, 1, 1)]"
  by code_simp

lemma example_sorted:
  "map (\<lambda>s. (displayName s, requiredCount s, totalCount s)) (sortedStats examplePRs)
   = [(''Ann Lee'', 2, 2), (''Bob'', 2, 2)]"
  by code_simp

text \<open>
  C1: for every list of pull requests, each statistic the aggregation produces (in the
  map and in the sorted list handed to the caller) has its four outcome counters sum to
  its required count. Each counted assignment adds one to the required count and one to
  the sum of the four counters.
\<close>

theorem bucket_counts_partition_required:
  "(\<forall>s \<in> set (Map_values (aggregateStats allPRs)).
      approvedCount s + waitingForAuthorCount s + rejectedCount s + pendingCount s
        = requiredCount s)
   \<and> (\<forall>s \<in> set (sortedStats allPRs).
      approvedCount s + waitingForAuthorCount s + rejectedCount s + pendingCount s
        = requiredCount s)
   \<and> requiredCount (recordAssignment pr rv st) = requiredCount st + 1
   \<and> approvedCount (recordAssignment pr rv st) + waitingForAuthorCount (recordAssignment pr rv st)
       + rejectedCount (recordAssignment pr rv st) + pendingCount (recordAssignment pr rv st)
     = approvedCount st + waitingForAuthorCount st + rejectedCount st + pendingCount st + 1"
  using aggregateStats_bucket_sum [of allPRs] recordAssignment_counts(1,4) [of pr rv st]
  by (simp add: set_sortedStats Map_values_def)

theorem bucket_counts_partition_required_witness:
  "sortedStats examplePRs \<noteq> []
   \<and> approvedCount (hd (sortedStats examplePRs)) + waitingForAuthorCount (hd (sortedStats examplePRs))
       + rejectedCount (hd (sortedStats examplePRs)) + pendingCount (hd (sortedStats examplePRs))
     = requiredCount (hd (sortedStats examplePRs))
   \<and> requiredCount (hd (sortedStats examplePRs)) = 2"
proof -
  have ne: "sortedStats examplePRs \<noteq> []" using example_sorted by auto
  then have mem: "hd (sortedStats examplePRs) \<in> set (sortedStats examplePRs)" by simp
  have "requiredCount (hd (sortedStats examplePRs)) = 2"
    using example_sorted ne by (cases "sortedStats examplePRs") auto
  with ne mem bucket_counts_partition_required [of examplePRs] show ?thesis by blast
qed

text \<open>
  C2: the vote branch increments exactly one counter, the one of the bucket the
  specification's rule names; the rule is total, a vote of at least 10 is approved, -5
  is waiting for author, at most -10 is rejected, and everything else, 0 and 7 and an
  absent vote included, is pending.
\<close>

theorem vote_classifier_total_ordered:
  "countVote v s = incrementBucket (classify v) s
   \<and> bucketCount b (countVote v s)
     = (if b = classify v then bucketCount b s + 1 else bucketCount b s)
   \<and> (v \<ge> 10 \<longrightarrow> classify v = ApprovedBucket)
   \<and> (v = -5 \<longrightarrow> classify v = WaitingForAuthorBucket)
   \<and> (v \<le> -10 \<longrightarrow> classify v = RejectedBucket)
   \<and> (-10 < v \<and> v < 10 \<and> v \<noteq> -5 \<longrightarrow> classify v = PendingBucket)
   \<and> classify 0 = PendingBucket \<and> classify 7 = PendingBucket
   \<and> classify (orZero None) = PendingBucket"
proof -
  have "countVote v s = incrementBucket (classify v) s"
    by (simp add: countVote_def classify_def)
  moreover have "bucketCount b (countVote v s)
     = (if b = classify v then bucketCount b s + 1 else bucketCount b s)"
    by (cases b) (auto simp: countVote_def classify_def)
  ultimately show ?thesis by (simp add: classify_def orZero_def)
qed

theorem vote_classifier_total_ordered_witness:
  "bucketCount PendingBucket (countVote 7 (newStat (mkReviewer ''Bob'' ''bob@x.io'' True 7))) = 1
   \<and> bucketCount ApprovedBucket (countVote 7 (newStat (mkReviewer ''Bob'' ''bob@x.io'' True 7))) = 0
   \<and> classify 12 = ApprovedBucket \<and> classify (-5) = WaitingForAuthorBucket
   \<and> classify (-11) = RejectedBucket \<and> classify 5 = PendingBucket"
  using vote_classifier_total_ordered [of 7 "newStat (mkReviewer ''Bob'' ''bob@x.io'' True 7)" PendingBucket]
    vote_classifier_total_ordered [of 7 "newStat (mkReviewer ''Bob'' ''bob@x.io'' True 7)" ApprovedBucket]
    vote_classifier_total_ordered [of 12] vote_classifier_total_ordered [of "-5"]
    vote_classifier_total_ordered [of "-11"] vote_classifier_total_ordered [of 5]
  by (simp add: newStat_def)

text \<open>
  C5: the map holds a statistic under a key exactly when the key is not empty and some
  pull request that is not a draft has a required reviewer whose lower-cased identity is
  that key. Hence nothing is held when every pull request is a draft.
\<close>

theorem stat_exists_iff_required_nondraft:
  "(Map_has (aggregateStats allPRs) k \<longleftrightarrow>
      k \<noteq> [] \<and> (\<exists>pr \<in> set allPRs. \<not> truthy (isDraft pr) \<and>
        (\<exists>rv \<in> set (reviewersOf pr). truthy (isRequired rv) \<and> reviewerEmail rv = k)))
   \<and> ((\<forall>pr \<in> set allPRs. truthy (isDraft pr)) \<longrightarrow> aggregateStats allPRs = [])"
proof -
  have "Map_has (aggregateStats allPRs) k \<longleftrightarrow> k \<in> set (map fst (aggregateStats allPRs))"
    by (simp add: Map_has_def Map_get_def map_of_eq_None_iff)
  also have "\<dots> \<longleftrightarrow> k \<in> (\<lambda>(pr, rv). reviewerEmail rv) ` set (assignments allPRs)"
    unfolding aggregateStats_assignments aggregateStats_keys_fold by simp
  also have "\<dots> \<longleftrightarrow> k \<noteq> [] \<and> (\<exists>pr \<in> set allPRs. \<not> truthy (isDraft pr) \<and>
      (\<exists>rv \<in> set (reviewersOf pr). truthy (isRequired rv) \<and> reviewerEmail rv = k))"
    unfolding assignments_set by auto
  finally have iff: "Map_has (aggregateStats allPRs) k \<longleftrightarrow>
      k \<noteq> [] \<and> (\<exists>pr \<in> set allPRs. \<not> truthy (isDraft pr) \<and>
        (\<exists>rv \<in> set (reviewersOf pr). truthy (isRequired rv) \<and> reviewerEmail rv = k))" .
  have "aggregateStats allPRs = []" if "\<forall>pr \<in> set allPRs. truthy (isDraft pr)"
  proof -
    have "nonDraftPRs allPRs = []" using that by (simp add: nonDraftPRs_def)
    then show ?thesis by (simp add: aggregateStats_def)
  qed
  with iff show ?thesis by blast
qed

theorem stat_exists_iff_required_nondraft_witness:
  "Map_has (aggregateStats examplePRs) ''bob@x.io''
   \<and> \<not> Map_has (aggregateStats examplePRs) ''cy@x.io''
   \<and> \<not> Map_has (aggregateStats examplePRs) ''dee@x.io''
   \<and> aggregateStats [mkPR 2 True [mkReviewer ''Cy'' ''cy@x.io'' True 0]] = []"
proof -
  have drafts: "\<forall>pr \<in> set [mkPR 2 True [mkReviewer ''Cy'' ''cy@x.io'' True 0]]. truthy (isDraft pr)"
    by (simp add: mkPR_def truthy_def)
  have bob: "''bob@x.io'' \<noteq> [] \<and> (\<exists>pr \<in> set examplePRs. \<not> truthy (isDraft pr) \<and>
        (\<exists>rv \<in> set (reviewersOf pr). truthy (isRequired rv) \<and> reviewerEmail rv = ''bob@x.io''))"
    by code_simp
  have cy: "\<not> (''cy@x.io'' \<noteq> [] \<and> (\<exists>pr \<in> set examplePRs. \<not> truthy (isDraft pr) \<and>
        (\<exists>rv \<in> set (reviewersOf pr). truthy (isRequired rv) \<and> reviewerEmail rv = ''cy@x.io'')))"
    by code_simp
  have dee: "\<not> (''dee@x.io'' \<noteq> [] \<and> (\<exists>pr \<in> set examplePRs. \<not> truthy (isDraft pr) \<and>
        (\<exists>rv \<in> set (reviewersOf pr). truthy (isRequired rv) \<and> reviewerEmail rv = ''dee@x.io'')))"
    by code_simp
  show ?thesis
    using stat_exists_iff_required_nondraft [of examplePRs "''bob@x.io''"]
      stat_exists_iff_required_nondraft [of examplePRs "''cy@x.io''"]
      stat_exists_iff_required_nondraft [of examplePRs "''dee@x.io''"]
      stat_exists_iff_required_nondraft [of "[mkPR 2 True [mkReviewer ''Cy'' ''cy@x.io'' True 0]]" k]
      drafts bob cy dee
    by blast
qed

text \<open>
  C10: every statistic of the aggregation has no optional assignment, a total equal to
  its required count, and at least one required assignment. So the required-only filter
  of the renderer keeps every entry, and sorting by the required count alone, without
  the tie-break on the total, gives the same list.
\<close>

theorem required_only_aggregate:
  "(\<forall>s \<in> set (sortedStats allPRs).
      optionalCount s = 0 \<and> totalCount s = requiredCount s \<and> requiredCount s \<ge> 1)
   \<and> filteredStats True (sortedStats allPRs) = sortedStats allPRs
   \<and> sortedStats allPRs
       = Array_sort (\<lambda>a b. int (requiredCount b) - int (requiredCount a))
           (Map_values (aggregateStats allPRs))"
proof -
  have inv: "\<forall>s \<in> set (sortedStats allPRs).
      optionalCount s = 0 \<and> totalCount s = requiredCount s \<and> requiredCount s \<ge> 1"
    using aggregateStats_required_only [of allPRs] by (simp add: set_sortedStats)
  then have "filter (\<lambda>r. requiredCount r > 0) (sortedStats allPRs) = sortedStats allPRs"
    by (intro filter_True) auto
  then have keep: "filteredStats True (sortedStats allPRs) = sortedStats allPRs"
    by (simp add: filteredStats_def)
  have "\<forall>a \<in> set (Map_values (aggregateStats allPRs)).
        \<forall>b \<in> set (Map_values (aggregateStats allPRs)).
          compareStats a b = int (requiredCount b) - int (requiredCount a)"
    using aggregateStats_required_only [of allPRs]
    by (auto simp: Map_values_def compareStats_def Let_def)
  then have "Array_sort compareStats (Map_values (aggregateStats allPRs))
      = Array_sort (\<lambda>a b. int (requiredCount b) - int (requiredCount a))
          (Map_values (aggregateStats allPRs))"
    by (rule Array_sort_cong)
  with inv keep show ?thesis by (simp add: sortedStats_def)
qed

theorem required_only_aggregate_witness:
  "map (\<lambda>s. (optionalCount s, totalCount s, requiredCount s)) (sortedStats examplePRs)
     = [(0, 2, 2), (0, 2, 2)]
   \<and> length (filteredStats True (sortedStats examplePRs)) = 2
   \<and> map displayName
        (Array_sort (\<lambda>a b. int (requiredCount b) - int (requiredCount a))
           (Map_values (aggregateStats examplePRs)))
     = [''Ann Lee'', ''Bob'']"
proof -
  have a: "map (\<lambda>s. (optionalCount s, totalCount s, requiredCount s)) (sortedStats examplePRs)
     = [(0, 2, 2), (0, 2, 2)]"
    by code_simp
  have b: "map displayName (sortedStats examplePRs) = [''Ann Lee'', ''Bob'']"
    by code_simp
  have c: "length (sortedStats examplePRs) = 2" by code_simp
  have keep: "filteredStats True (sortedStats examplePRs) = sortedStats examplePRs"
    and same: "sortedStats examplePRs
       = Array_sort (\<lambda>a b. int (requiredCount b) - int (requiredCount a))
           (Map_values (aggregateStats examplePRs))"
    using required_only_aggregate [of examplePRs] by blast+
  have "length (filteredStats True (sortedStats examplePRs)) = 2"
    unfolding keep by (rule c)
  moreover have "map displayName
        (Array_sort (\<lambda>a b. int (requiredCount b) - int (requiredCount a))
           (Map_values (aggregateStats examplePRs))) = [''Ann Lee'', ''Bob'']"
    unfolding same [symmetric] by (rule b)
  ultimately show ?thesis using a by blast
qed

text \<open>
  C7: the list handed to the renderer is a rearrangement of the map's values, ordered
  descending by required count with ties descending by total count, and reviewers equal
  on both keys keep the order in which the aggregation met them. The renderer's filter
  keeps that order, and the data rows of the table are the rows of the filtered list, one
  after the other.
\<close>

theorem report_sorted_stable:
  "sorted_wrt descOrder (sortedStats allPRs)
   \<and> mset (sortedStats allPRs) = mset (Map_values (aggregateStats allPRs))
   \<and> filter (\<lambda>s. requiredCount s = r \<and> totalCount s = t) (sortedStats allPRs)
       = filter (\<lambda>s. requiredCount s = r \<and> totalCount s = t) (Map_values (aggregateStats allPRs))
   \<and> sorted_wrt descOrder (filteredStats ro (sortedStats allPRs))
   \<and> (filteredStats ro (sortedStats allPRs) \<noteq> [] \<longrightarrow>
        take (length (filteredStats ro (sortedStats allPRs)))
          (drop 3 (tableLines random (sortedStats allPRs) n ro))
        = map (dataRow ro (widths ro (filteredStats ro (sortedStats allPRs))))
            (filteredStats ro (sortedStats allPRs)))"
proof -
  have "sorted_wrt descOrder (filteredStats ro (sortedStats allPRs))"
    using sorted_sortedStats [of allPRs] by (simp add: filteredStats_def sorted_wrt_filter')
  moreover have "mset (sortedStats allPRs) = mset (Map_values (aggregateStats allPRs))"
    by (simp add: sortedStats_def mset_Array_sort)
  ultimately show ?thesis
    using sorted_sortedStats [of allPRs] stable_sortedStats [of r t allPRs]
      tableLines_rows [of ro "sortedStats allPRs" random n]
    by blast
qed

theorem report_sorted_stable_witness:
  "map displayName (sortedStats examplePRs) = [''Ann Lee'', ''Bob'']
   \<and> map displayName (Map_values (aggregateStats examplePRs)) = [''Ann Lee'', ''Bob'']
   \<and> descOrder (sortedStats examplePRs ! 0) (sortedStats examplePRs ! 1)
   \<and> take 2 (drop 3 (tableLines 0 (sortedStats examplePRs) 2 True))
       = [''Ann Lee          2         1                   1         0           0'',
          ''Bob              2         0                   0         1           1'']"
proof -
  have names: "map displayName (sortedStats examplePRs) = [''Ann Lee'', ''Bob'']"
    by code_simp
  have src: "map displayName (Map_values (aggregateStats examplePRs)) = [''Ann Lee'', ''Bob'']"
    by code_simp
  have len: "length (sortedStats examplePRs) = 2" by code_simp
  have flt: "filteredStats True (sortedStats examplePRs) = sortedStats examplePRs"
    by code_simp
  have rows: "map (dataRow True (widths True (sortedStats examplePRs))) (sortedStats examplePRs)
       = [''Ann Lee          2         1                   1         0           0'',
          ''Bob              2         0                   0         1           1'']"
    by code_simp
  have ne: "filteredStats True (sortedStats examplePRs) \<noteq> []"
    using len flt by auto
  have sorted: "sorted_wrt descOrder (sortedStats examplePRs)"
    and shown: "take (length (filteredStats True (sortedStats examplePRs)))
          (drop 3 (tableLines 0 (sortedStats examplePRs) 2 True))
        = map (dataRow True (widths True (filteredStats True (sortedStats examplePRs))))
            (filteredStats True (sortedStats examplePRs))"
    using report_sorted_stable [of examplePRs _ _ True 0 2] ne by blast+
  have "descOrder (sortedStats examplePRs ! 0) (sortedStats examplePRs ! 1)"
    using sorted len by (simp add: sorted_wrt_iff_nth_less)
  moreover have "take 2 (drop 3 (tableLines 0 (sortedStats examplePRs) 2 True))
       = [''Ann Lee          2         1                   1         0           0'',
          ''Bob              2         0                   0         1           1'']"
    using shown unfolding flt len rows .
  ultimately show ?thesis using names src by blast
qed

text \<open>
  C9: when no reviewer is left after the display-time filter, the renderer returns the
  title line followed by the single line "No reviewers found."; the lines contain no
  header row and no row of dashes (the text has no dash at all). The empty list of
  statistics is such an input, and the tool reports it as a success, not as an error.
\<close>

theorem empty_report_no_table:
  "(filteredStats ro stats = [] \<longrightarrow>
      tableLines random stats n ro
        = [''Reviewer Statistics ('' @ showNat n @ '' Active PRs)'' @ newline,
           ''No reviewers found.'']
      \<and> generateMarkdownTable random stats n ro
        = ''Reviewer Statistics ('' @ showNat n @ '' Active PRs)'' @ newline @ newline
          @ ''No reviewers found.''
      \<and> headerRow (headers ro) (widths ro fs) \<notin> set (tableLines random stats n ro)
      \<and> dashRow (widths ro fs) \<notin> set (tableLines random stats n ro)
      \<and> CHR ''-'' \<notin> set (generateMarkdownTable random stats n ro))
   \<and> filteredStats ro [] = []
   \<and> success (reviewerStats random ro' allPRs)
   \<and> error (reviewerStats random ro' allPRs) = None"
proof -
  let ?title = "''Reviewer Statistics ('' @ showNat n @ '' Active PRs)'' @ newline"
  have part: "tableLines random stats n ro = [?title, ''No reviewers found.'']
      \<and> generateMarkdownTable random stats n ro
        = ''Reviewer Statistics ('' @ showNat n @ '' Active PRs)'' @ newline @ newline
          @ ''No reviewers found.''
      \<and> headerRow (headers ro) (widths ro fs) \<notin> set (tableLines random stats n ro)
      \<and> dashRow (widths ro fs) \<notin> set (tableLines random stats n ro)
      \<and> CHR ''-'' \<notin> set (generateMarkdownTable random stats n ro)"
    if empty: "filteredStats ro stats = []"
  proof -
    have lines: "tableLines random stats n ro = [?title, ''No reviewers found.'']"
      using empty by (simp add: tableLines_empty)
    have md: "generateMarkdownTable random stats n ro
        = ''Reviewer Statistics ('' @ showNat n @ '' Active PRs)'' @ newline @ newline
          @ ''No reviewers found.''"
      by (simp add: generateMarkdownTable_def lines)
    have "headerRow (headers ro) (widths ro fs) \<noteq> ?title"
      using header_has_q [of ro fs] title_chars [of "CHR ''q''" n] by auto
    moreover have "headerRow (headers ro) (widths ro fs) \<noteq> ''No reviewers found.''"
      using header_has_q [of ro fs] by auto
    moreover have "dashRow (widths ro fs) \<noteq> ?title"
      using dashes_have_dash [of ro fs] title_chars [of "CHR ''-''" n] by auto
    moreover have "dashRow (widths ro fs) \<noteq> ''No reviewers found.''"
      using dashes_have_dash [of ro fs] by auto
    moreover have "CHR ''-'' \<notin> set (''Reviewer Statistics ('' @ showNat n @ '' Active PRs)''
        @ newline @ newline @ ''No reviewers found.'')"
      using title_chars [of "CHR ''-''" n] by (auto simp: newline_def)
    ultimately show ?thesis unfolding lines md by simp
  qed
  have none: "filteredStats ro [] = []" by (simp add: filteredStats_def)
  have ok: "success (reviewerStats random ro' allPRs)
      \<and> error (reviewerStats random ro' allPRs) = None"
    using reviewerStats_data [of random ro' allPRs] by blast
  from part none ok show ?thesis by blast
qed

theorem empty_report_no_table_witness:
  "filteredStats True [] = []
   \<and> generateMarkdownTable 0 [] 0 True
       = ''Reviewer Statistics (0 Active PRs)'' @ newline @ newline @ ''No reviewers found.''
   \<and> tableLines 0 [] 0 True
       = [''Reviewer Statistics (0 Active PRs)'' @ newline, ''No reviewers found.'']
   \<and> CHR ''-'' \<notin> set (generateMarkdownTable 0 [] 0 True)
   \<and> success (reviewerStats 0 None [])"
proof -
  have e: "filteredStats True [] = []" by (simp add: filteredStats_def)
  have n: "showNat 0 = ''0''" by code_simp
  show ?thesis
    using empty_report_no_table [of True "[]" 0 0 "[]" None "[]"] e
    by (simp add: n newline_def)
qed

text \<open>
  C6: the tool run with \<open>requiredOnly\<close> false (the command line's \<open>--all\<close>, "show all
  reviewers including optional") on one pull request under review whose only reviewer
  is optional, has a named identity and has approved. The loop drops the assignment:
  the map is empty, no statistic is returned and the report reads "No reviewers found.",
  where an entry for the reviewer with an optional count and a total of 1 is expected.
\<close>

theorem optional_assignment_dropped:
  "aggregateStats [mkPR 1 False [mkReviewer ''Dee'' ''dee@x.io'' False 10]] = []
   \<and> data (reviewerStats 0 (Some False) [mkPR 1 False [mkReviewer ''Dee'' ''dee@x.io'' False 10]])
       = Some \<lparr> reviewers = [], totalPRs = 1,
                markdown = ''Reviewer Statistics (1 Active PRs)'' @ newline @ newline
                           @ ''No reviewers found.'' \<rparr>"
  by code_simp

text \<open>
  C8 (as stated, refuted): two required assignments whose identities differ only in
  surrounding blanks get two statistics, and an identity made of blanks only is not
  skipped.
\<close>

theorem email_trimmed_counterexample:
  "map fst (aggregateStats [mkPR 1 False [mkReviewer ''Ann'' ''ann@x.io'' True 0,
                                           mkReviewer ''Ann'' '' ann@x.io '' True 0]])
     = [''ann@x.io'', '' ann@x.io '']
   \<and> map fst (aggregateStats [mkPR 1 False [mkReviewer ''Ann'' ''  '' True 0]]) = [''  '']"
  by code_simp

text \<open>
  C8 (amended): the key of an assignment is its identity in lower case, and it is empty
  exactly when the identity is absent or empty. Nothing is trimmed: blanks around an
  identity stay in its key. Two identities have the same key exactly when they differ
  only in letter case. The map has one entry per key, and the required count under the
  key of an identity is the number of counted assignments whose identity differs from
  it only in letter case; two such assignments in a row end in one statistic that
  counts both. An assignment whose key is empty changes nothing.
\<close>

theorem email_lowercased_not_trimmed:
  "(uniqueName rv = Some u \<longrightarrow> reviewerEmail rv = toLowerCase u)
   \<and> (reviewerEmail rv = [] \<longleftrightarrow> uniqueName rv = None \<or> uniqueName rv = Some [])
   \<and> (toLowerCase u1 = toLowerCase u2 \<longleftrightarrow> sameUpToCase u1 u2)
   \<and> toLowerCase (replicate i (CHR '' '') @ u @ replicate j (CHR '' ''))
       = replicate i (CHR '' '') @ toLowerCase u @ replicate j (CHR '' '')
   \<and> distinct (map fst (aggregateStats allPRs))
   \<and> requiredAt (aggregateStats allPRs) (toLowerCase u)
       = length (filter (\<lambda>(pr, r). case uniqueName r of None \<Rightarrow> False
                                   | Some u' \<Rightarrow> sameUpToCase u' u) (assignments allPRs))
   \<and> (truthy (isRequired r1) \<and> truthy (isRequired r2)
        \<and> uniqueName r1 = Some u1 \<and> uniqueName r2 = Some u2 \<and> u1 \<noteq> []
        \<and> sameUpToCase u1 u2 \<longrightarrow>
          map fst (foldl (processReviewer pr) m [r1, r2]) = map fst (processReviewer pr m r1)
          \<and> requiredAt (foldl (processReviewer pr) m [r1, r2]) (toLowerCase u1)
              = requiredAt m (toLowerCase u1) + 2)
   \<and> (reviewerEmail rv = [] \<longrightarrow> processReviewer pr m rv = m)"
proof -
  have two: "map fst (foldl (processReviewer pr) m [r1, r2]) = map fst (processReviewer pr m r1)
          \<and> requiredAt (foldl (processReviewer pr) m [r1, r2]) (toLowerCase u1)
              = requiredAt m (toLowerCase u1) + 2"
    if req: "truthy (isRequired r1)" "truthy (isRequired r2)"
      and names: "uniqueName r1 = Some u1" "uniqueName r2 = Some u2"
      and ne: "u1 \<noteq> []" and same: "sameUpToCase u1 u2"
  proof -
    have k1: "reviewerEmail r1 = toLowerCase u1" using names(1) by (rule reviewerEmail_Some)
    have "toLowerCase u1 = toLowerCase u2" using same by (simp only: toLowerCase_eq_iff)
    then have k2: "reviewerEmail r2 = toLowerCase u1"
      using names(2) by (simp add: reviewerEmail_Some)
    have nonempty: "toLowerCase u1 \<noteq> []" using ne by (simp add: toLowerCase_def)
    have c1: "counted r1" and c2: "counted r2"
      using req k1 k2 nonempty by (simp_all add: counted_def)
    then have eq: "foldl (processReviewer pr) m [r1, r2] = upsert pr r2 (upsert pr r1 m)"
      by (simp add: processReviewer_eq)
    have "reviewerEmail r2 \<in> set (map fst (upsert pr r1 m))"
      unfolding upsert_key_set k1 k2 by simp
    then have "map fst (upsert pr r2 (upsert pr r1 m)) = map fst (upsert pr r1 m)"
      unfolding upsert_keys [of pr r2] by simp
    moreover have "requiredAt (upsert pr r2 (upsert pr r1 m)) (toLowerCase u1)
        = requiredAt m (toLowerCase u1) + 2"
      by (simp add: requiredAt_upsert k1 k2)
    ultimately show ?thesis using c1 c2 by (simp add: eq processReviewer_eq)
  qed
  show ?thesis
    using reviewerEmail_Some [of rv u] reviewerEmail_empty_iff [of rv]
      toLowerCase_eq_iff [of u1 u2] toLowerCase_blanks [of i u j]
      aggregateStats_distinct [of allPRs] requiredAt_sameUpToCase [of allPRs u] two
      processReviewer_skip [of rv pr m]
    by blast
qed

theorem email_lowercased_not_trimmed_witness:
  "reviewerEmail (mkReviewer ''Bob'' ''BOB@x.io'' True (-10)) = ''bob@x.io''
   \<and> toLowerCase '' Ann@X.io '' = '' ann@x.io ''
   \<and> sameUpToCase ''BOB@x.io'' ''bob@x.io''
   \<and> requiredAt (aggregateStats examplePRs) ''bob@x.io'' = 2
   \<and> map fst (foldl (processReviewer (mkPR 1 False [])) []
        [mkReviewer ''Eric'' (CHR 0xC9 # ''RIC@x.io'') True 5,
         mkReviewer ''Eric'' (CHR 0xE9 # ''ric@x.io'') True (-10)])
       = [CHR 0xE9 # ''ric@x.io'']
   \<and> requiredAt (foldl (processReviewer (mkPR 1 False [])) []
        [mkReviewer ''Eric'' (CHR 0xC9 # ''RIC@x.io'') True 5,
         mkReviewer ''Eric'' (CHR 0xE9 # ''ric@x.io'') True (-10)])
        (CHR 0xE9 # ''ric@x.io'') = 2
   \<and> processReviewer (mkPR 1 False []) [] (mkReviewer ''Nobody'' [] True 0) = []"
proof -
  let ?b2 = "mkReviewer ''Bob'' ''BOB@x.io'' True (-10)"
  let ?e1 = "mkReviewer ''Eric'' (CHR 0xC9 # ''RIC@x.io'') True 5"
  let ?e2 = "mkReviewer ''Eric'' (CHR 0xE9 # ''ric@x.io'') True (-10)"
  let ?pr = "mkPR 1 False []"
  have u: "uniqueName ?b2 = Some ''BOB@x.io''" by (simp add: mkReviewer_def)
  have lc: "toLowerCase ''BOB@x.io'' = ''bob@x.io''" by code_simp
  have same: "sameUpToCase ''BOB@x.io'' ''bob@x.io''" by code_simp
  have blanks: "replicate 1 (CHR '' '') @ ''Ann@X.io'' @ replicate 1 (CHR '' '') = '' Ann@X.io ''"
    by simp
  have lcAnn: "replicate 1 (CHR '' '') @ toLowerCase ''Ann@X.io'' @ replicate 1 (CHR '' '')
      = '' ann@x.io ''"
    by code_simp
  have cnt: "length (filter (\<lambda>(pr, r). case uniqueName r of None \<Rightarrow> False
                 | Some u' \<Rightarrow> sameUpToCase u' ''BOB@x.io'') (assignments examplePRs)) = 2"
    by code_simp
  have pre: "truthy (isRequired ?e1) \<and> truthy (isRequired ?e2)
        \<and> uniqueName ?e1 = Some (CHR 0xC9 # ''RIC@x.io'')
        \<and> uniqueName ?e2 = Some (CHR 0xE9 # ''ric@x.io'')
        \<and> CHR 0xC9 # ''RIC@x.io'' \<noteq> []
        \<and> sameUpToCase (CHR 0xC9 # ''RIC@x.io'') (CHR 0xE9 # ''ric@x.io'')"
    by code_simp
  have lcE: "toLowerCase (CHR 0xC9 # ''RIC@x.io'') = CHR 0xE9 # ''ric@x.io''" by code_simp
  have first: "map fst (processReviewer ?pr [] ?e1) = [CHR 0xE9 # ''ric@x.io'']" by code_simp
  have r0: "requiredAt [] (CHR 0xE9 # ''ric@x.io'') = 0" by code_simp
  have nobody: "reviewerEmail (mkReviewer ''Nobody'' [] True 0) = []" by code_simp
  note inst = email_lowercased_not_trimmed [of ?b2 "''BOB@x.io''" "''BOB@x.io''" "''bob@x.io''"
      _ _ examplePRs]
  note instAnn = email_lowercased_not_trimmed [of _ "''Ann@X.io''" _ _ 1 1]
  note instE = email_lowercased_not_trimmed [of _ _ "CHR 0xC9 # ''RIC@x.io''"
      "CHR 0xE9 # ''ric@x.io''" _ _ _ ?e1 ?e2 ?pr "[]"]
  note instN = email_lowercased_not_trimmed [of "mkReviewer ''Nobody'' [] True 0" _ _ _ _ _ _ _ _ ?pr "[]"]
  have "reviewerEmail ?b2 = toLowerCase ''BOB@x.io''" using inst u by blast
  then have a: "reviewerEmail ?b2 = ''bob@x.io''" unfolding lc .
  have "toLowerCase (replicate 1 (CHR '' '') @ ''Ann@X.io'' @ replicate 1 (CHR '' ''))
      = replicate 1 (CHR '' '') @ toLowerCase ''Ann@X.io'' @ replicate 1 (CHR '' '')"
    using instAnn by blast
  then have b: "toLowerCase '' Ann@X.io '' = '' ann@x.io ''" unfolding blanks lcAnn .
  have "requiredAt (aggregateStats examplePRs) (toLowerCase ''BOB@x.io'')
      = length (filter (\<lambda>(pr, r). case uniqueName r of None \<Rightarrow> False
                 | Some u' \<Rightarrow> sameUpToCase u' ''BOB@x.io'') (assignments examplePRs))"
    using inst by blast
  then have c: "requiredAt (aggregateStats examplePRs) ''bob@x.io'' = 2" unfolding cnt lc .
  have d0: "map fst (foldl (processReviewer ?pr) [] [?e1, ?e2]) = map fst (processReviewer ?pr [] ?e1)"
    and e0: "requiredAt (foldl (processReviewer ?pr) [] [?e1, ?e2]) (toLowerCase (CHR 0xC9 # ''RIC@x.io''))
      = requiredAt [] (toLowerCase (CHR 0xC9 # ''RIC@x.io'')) + 2"
    using instE pre by blast+
  have d: "map fst (foldl (processReviewer ?pr) [] [?e1, ?e2]) = [CHR 0xE9 # ''ric@x.io'']"
    using d0 unfolding first .
  have e: "requiredAt (foldl (processReviewer ?pr) [] [?e1, ?e2]) (CHR 0xE9 # ''ric@x.io'') = 2"
    using e0 unfolding lcE r0 by simp
  have f: "processReviewer ?pr [] (mkReviewer ''Nobody'' [] True 0) = []"
    using instN nobody by blast
  from a b same c d e f show ?thesis by blast
qed

text \<open>
  C3: the badges the code assigns are those of the specification's table read in its
  order with the first match winning, for the reviewers that have required reviews; a
  reviewer gets at most one badge per occurrence in the input, and none without required
  reviews. Among the statistics the tool classifies, one that meets the conditions of
  both Flawless and Speed Demon gets Flawless.
\<close>

theorem badge_first_match_wins:
  "map (\<lambda>b. (reviewer b, title b)) (assignBadges stats) = classify_badges stats
   \<and> length (filter (\<lambda>b. reviewer b = r) (assignBadges stats))
       \<le> length (filter (\<lambda>x. x = r) stats)
   \<and> (\<forall>b \<in> set (assignBadges stats).
         reviewer b \<in> set stats \<and> requiredCount (reviewer b) > 0)
   \<and> (\<forall>s \<in> set (filteredStats ro (sortedStats allPRs)).
         requiredCount s \<ge> 2 \<and> completionRate s = 1
         \<and> isMedVolume (avgRequired (filteredStats ro (sortedStats allPRs))) s
         \<and> completionRate s \<ge> 0.7
         \<longrightarrow> (s, ''Flawless'') \<in> set (map (\<lambda>b. (reviewer b, title b))
                  (assignBadges (filteredStats ro (sortedStats allPRs))))
             \<and> (s, ''Speed Demon'') \<notin> set (map (\<lambda>b. (reviewer b, title b))
                  (assignBadges (filteredStats ro (sortedStats allPRs)))))"
proof -
  let ?fs = "filteredStats ro (sortedStats allPRs)"
  have "(s, ''Flawless'') \<in> set (classify_badges ?fs)
      \<and> (s, ''Speed Demon'') \<notin> set (classify_badges ?fs)"
    if mem: "s \<in> set ?fs" and fl: "requiredCount s \<ge> 2" "completionRate s = 1"
      and sd: "isMedVolume (avgRequired ?fs) s" for s
  proof -
    have "s \<in> set (sortedStats allPRs)" using mem by (auto simp: filteredStats_def split: if_splits)
    then have "s \<in> snd ` set (aggregateStats allPRs)" unfolding set_sortedStats .
    then have "approvedCount s + waitingForAuthorCount s + rejectedCount s + pendingCount s
        = requiredCount s"
      using aggregateStats_bucket_sum [of allPRs] by blast
    then have "firstMatch (badgeRules (avgRequired ?fs)) s = Some ''Flawless''"
      using fl sd by (rule flawless_before_speed_demon)
    then show ?thesis using mem fl(1) by (simp add: classify_badges_set)
  qed
  then show ?thesis
    using assignBadges_classify [of stats] assignBadges_at_most_one [of r stats]
      assignBadges_reviewer [of _ stats] assignBadges_classify [of ?fs]
    by (simp only:) blast
qed

lemma badgePRs_stats:
  "map (\<lambda>s. (displayName s, requiredCount s, approvedCount s, pendingCount s,
              waitingForAuthorCount s, rejectedCount s)) (sortedStats badgePRs)
     = [(''Ann Lee'', 2, 2, 0, 0, 0), (''Bob'', 2, 0, 2, 0, 0)]"
  by code_simp

theorem badge_first_match_wins_witness:
  "map (\<lambda>(s, t). (displayName s, t)) (classify_badges (sortedStats badgePRs))
     = [(''Ann Lee'', ''Flawless''), (''Bob'', ''Needs Coffee'')]
   \<and> map (\<lambda>b. (displayName (reviewer b), title b)) (assignBadges (sortedStats badgePRs))
     = [(''Ann Lee'', ''Flawless''), (''Bob'', ''Needs Coffee'')]
   \<and> (hd (sortedStats badgePRs), ''Flawless'')
        \<in> set (map (\<lambda>b. (reviewer b, title b)) (assignBadges (sortedStats badgePRs)))"
proof -
  obtain a b where srt: "sortedStats badgePRs = [a, b]"
    and a: "displayName a = ''Ann Lee''" "requiredCount a = 2" "approvedCount a = 2"
      "pendingCount a = 0" "waitingForAuthorCount a = 0" "rejectedCount a = 0"
    and b: "displayName b = ''Bob''" "requiredCount b = 2" "approvedCount b = 0"
      "pendingCount b = 2" "waitingForAuthorCount b = 0" "rejectedCount b = 0"
    using badgePRs_stats by (auto simp: map_eq_Cons_conv)
  have avg: "avgRequired [a, b] = 2" by (simp add: avgRequired_def a b)
  have cls: "classify_badges [a, b] = [(a, ''Flawless''), (b, ''Needs Coffee'')]"
    by (simp add: classify_badges_def avg firstMatch_def badgeRules_def isHighVolume_def
        isLowVolume_def isMedVolume_def completionRate_def unreviewedRate_def a b)
  have flt: "filteredStats True [a, b] = [a, b]" by (simp add: filteredStats_def a b)
  note inst = badge_first_match_wins [of "sortedStats badgePRs" a True badgePRs]
  have eq: "map (\<lambda>b. (reviewer b, title b)) (assignBadges [a, b]) = classify_badges [a, b]"
    using inst unfolding srt by blast
  have conds: "requiredCount a \<ge> 2 \<and> completionRate a = 1
         \<and> isMedVolume (avgRequired [a, b]) a \<and> completionRate a \<ge> 0.7"
    by (simp add: avg isHighVolume_def isLowVolume_def isMedVolume_def completionRate_def a)
  have mem: "a \<in> set [a, b]" by simp
  have fl: "(a, ''Flawless'') \<in> set (map (\<lambda>b. (reviewer b, title b)) (assignBadges [a, b]))"
    using inst conds mem unfolding srt flt by blast
  have "map (\<lambda>b. (displayName (reviewer b), title b)) (assignBadges [a, b])
      = map (\<lambda>(s, t). (displayName s, t)) (map (\<lambda>b. (reviewer b, title b)) (assignBadges [a, b]))"
    by simp
  then have "map (\<lambda>b. (displayName (reviewer b), title b)) (assignBadges [a, b])
      = [(''Ann Lee'', ''Flawless''), (''Bob'', ''Needs Coffee'')]"
    unfolding eq cls by (simp add: a b)
  then show ?thesis using fl by (simp add: srt cls a b)
qed

text \<open>
  C4 (as stated, refuted): on one pull request with one required reviewer who voted 5
  (approved with suggestions) the tool counts the vote as unreviewed and the script as
  approved. On two pull requests, both approved by Ann and both left unvoted by Bob, the
  tool assigns Flawless to Ann and Needs Coffee to Bob, while the script records Flawless
  and Speed Demon for Ann and nothing for Bob; no Benchwarmer test is involved.
\<close>

theorem tool_script_equal_counterexample:
  "map (\<lambda>(k, s). (k, toolCounts s)) (aggregateStats votePRs) = [(''bob@x.io'', 1, 0, 0, 1)]
   \<and> map (\<lambda>(k, t). (k, scriptCounts t)) (scriptAggregate votePRs) = [(''bob@x.io'', 1, 1, 0, 0)]
   \<and> map (\<lambda>b. (toLowerCase (email (reviewer b)), title b)) (assignBadges (sortedStats badgePRs))
       = [(''ann@x.io'', ''Flawless''), (''bob@x.io'', ''Needs Coffee'')]
   \<and> map (\<lambda>((e, ttl), t). (Email t, ttl)) (applicableBadges badgePRs)
       = [(''ann@x.io'', ''Flawless''), (''ann@x.io'', ''Speed Demon'')]"
  by code_simp

text \<open>
  C4 (amended): when every reviewer assignment carries an identity, the tool and the
  script hold the same reviewers in the same order, with equal required counts, the
  script's Blocked equal to waiting-for-author plus rejected, and equal sums of approved
  and unreviewed. When moreover no counted vote lies from 5 to 9, Approved and Unreviewed
  equal the tool's approved and pending counts, and every badge the tool assigns, other
  than Needs Coffee, is among the badges the script records for the reviewer stored under
  the same key. The two Benchwarmer tests are equivalent. Equality of the badge sets is
  not claimed.
\<close>

theorem tool_script_agreement:
  assumes named: "\<forall>pr \<in> set allPRs. \<forall>rv \<in> set (reviewersOf pr). uniqueName rv \<noteq> None"
  shows "map (\<lambda>(k, s). (k, requiredCount s, waitingForAuthorCount s + rejectedCount s,
                 approvedCount s + pendingCount s)) (aggregateStats allPRs)
       = map (\<lambda>(k, t). (k, Required t, Blocked t, Approved t + Unreviewed t))
           (scriptAggregate allPRs)
   \<and> ((\<forall>(pr, rv) \<in> set (assignments allPRs). voteAgreed rv) \<longrightarrow>
        map (\<lambda>(k, s). (k, toolCounts s)) (aggregateStats allPRs)
          = map (\<lambda>(k, t). (k, scriptCounts t)) (scriptAggregate allPRs)
        \<and> (\<forall>b \<in> set (assignBadges (filteredStats ro (sortedStats allPRs))).
              title b \<noteq> ''Needs Coffee'' \<longrightarrow>
              (\<exists>k e t. Map_get (aggregateStats allPRs) k = Some (reviewer b)
                 \<and> map_of (scriptAggregate allPRs) k = Some t
                 \<and> ((e, title b), t) \<in> set (applicableBadges allPRs))))
   \<and> (requiredCount s = Required t \<and> requiredCount s \<noteq> 0 \<longrightarrow>
        fst (snd (scriptBadges ! 3)) = ''Benchwarmer''
        \<and> (snd (snd (scriptBadges ! 3)) t avg \<longleftrightarrow> isLowVolume avg s \<and> requiredCount s \<le> 1))"
proof -
  have a: "map (\<lambda>(k, s). (k, requiredCount s, waitingForAuthorCount s + rejectedCount s,
                 approvedCount s + pendingCount s)) (aggregateStats allPRs)
       = map (\<lambda>(k, t). (k, Required t, Blocked t, Approved t + Unreviewed t))
           (scriptAggregate allPRs)"
    using agree_required_blocked [OF named] by (rule agree_map) simp
  have b: "map (\<lambda>(k, s). (k, toolCounts s)) (aggregateStats allPRs)
          = map (\<lambda>(k, t). (k, scriptCounts t)) (scriptAggregate allPRs)
        \<and> (\<forall>b \<in> set (assignBadges (filteredStats ro (sortedStats allPRs))).
              title b \<noteq> ''Needs Coffee'' \<longrightarrow>
              (\<exists>k e t. Map_get (aggregateStats allPRs) k = Some (reviewer b)
                 \<and> map_of (scriptAggregate allPRs) k = Some t
                 \<and> ((e, title b), t) \<in> set (applicableBadges allPRs)))"
    if votes: "\<forall>(pr, rv) \<in> set (assignments allPRs). voteAgreed rv"
  proof -
    note ag = agree_counts [OF named votes]
    have "map (\<lambda>(k, s). (k, toolCounts s)) (aggregateStats allPRs)
          = map (\<lambda>(k, t). (k, scriptCounts t)) (scriptAggregate allPRs)"
      using ag by (rule agree_map)
    then show ?thesis using tool_badge_in_script [OF ag] by blast
  qed
  have c: "fst (snd (scriptBadges ! 3)) = ''Benchwarmer''
        \<and> (snd (snd (scriptBadges ! 3)) t avg \<longleftrightarrow> isLowVolume avg s \<and> requiredCount s \<le> 1)"
    if "requiredCount s = Required t \<and> requiredCount s \<noteq> 0"
    using that benchwarmer_tests_agree [of s t avg] by blast
  from a b c show ?thesis by blast
qed

theorem tool_script_agreement_witness:
  "map (\<lambda>(k, s). (k, toolCounts s)) (aggregateStats badgePRs)
     = [(''ann@x.io'', 2, 2, 0, 0), (''bob@x.io'', 2, 0, 0, 2)]
   \<and> map (\<lambda>(k, t). (k, scriptCounts t)) (scriptAggregate badgePRs)
     = [(''ann@x.io'', 2, 2, 0, 0), (''bob@x.io'', 2, 0, 0, 2)]
   \<and> (\<exists>k e t. Map_get (aggregateStats badgePRs) k = Some (hd (sortedStats badgePRs))
          \<and> map_of (scriptAggregate badgePRs) k = Some t
          \<and> ((e, ''Flawless''), t) \<in> set (applicableBadges badgePRs))
   \<and> map (\<lambda>(k, s). (k, requiredCount s, waitingForAuthorCount s + rejectedCount s,
               approvedCount s + pendingCount s)) (aggregateStats votePRs)
     = map (\<lambda>(k, t). (k, Required t, Blocked t, Approved t + Unreviewed t))
         (scriptAggregate votePRs)"
proof -
  have named: "\<forall>pr \<in> set badgePRs. \<forall>rv \<in> set (reviewersOf pr). uniqueName rv \<noteq> None"
    by code_simp
  have votes: "\<forall>(pr, rv) \<in> set (assignments badgePRs). voteAgreed rv"
    by code_simp
  have named': "\<forall>pr \<in> set votePRs. \<forall>rv \<in> set (reviewersOf pr). uniqueName rv \<noteq> None"
    by code_simp
  have tool: "map (\<lambda>(k, s). (k, toolCounts s)) (aggregateStats badgePRs)
     = [(''ann@x.io'', 2, 2, 0, 0), (''bob@x.io'', 2, 0, 0, 2)]"
    by code_simp
  let ?b = "hd (assignBadges (filteredStats True (sortedStats badgePRs)))"
  have bmem: "?b \<in> set (assignBadges (filteredStats True (sortedStats badgePRs)))"
    by code_simp
  have btitle: "title ?b = ''Flawless''" by code_simp
  have brev: "reviewer ?b = hd (sortedStats badgePRs)" by code_simp
  note inst = tool_script_agreement [OF named, of True]
  have eq: "map (\<lambda>(k, s). (k, toolCounts s)) (aggregateStats badgePRs)
          = map (\<lambda>(k, t). (k, scriptCounts t)) (scriptAggregate badgePRs)"
    using inst votes by blast
  have "title ?b \<noteq> ''Needs Coffee''" unfolding btitle by simp
  then have "\<exists>k e t. Map_get (aggregateStats badgePRs) k = Some (reviewer ?b)
          \<and> map_of (scriptAggregate badgePRs) k = Some t
          \<and> ((e, title ?b), t) \<in> set (applicableBadges badgePRs)"
    using inst votes bmem by blast
  then have badge: "\<exists>k e t. Map_get (aggregateStats badgePRs) k = Some (hd (sortedStats badgePRs))
          \<and> map_of (scriptAggregate badgePRs) k = Some t
          \<and> ((e, ''Flawless''), t) \<in> set (applicableBadges badgePRs)"
    unfolding btitle brev .
  have vote5: "map (\<lambda>(k, s). (k, requiredCount s, waitingForAuthorCount s + rejectedCount s,
               approvedCount s + pendingCount s)) (aggregateStats votePRs)
     = map (\<lambda>(k, t). (k, Required t, Blocked t, Approved t + Unreviewed t))
         (scriptAggregate votePRs)"
    using tool_script_agreement [OF named'] by blast
  have script: "map (\<lambda>(k, t). (k, scriptCounts t)) (scriptAggregate badgePRs)
     = [(''ann@x.io'', 2, 2, 0, 0), (''bob@x.io'', 2, 0, 0, 2)]"
    using tool unfolding eq .
  from tool script badge vote5 show ?thesis by blast
qed

end
